theory Spec2Isabelle
  imports Main "HOL-Library.Product_Lexorder" "HOL-Library.Sublist" "HOL-Library.Multiset"
begin

section \<open>Values of the interpreter\<close>

text \<open>
  A Python \<open>str\<close> is modelled as a \<open>string\<close>, each \<open>char\<close> standing for the code
  point of the same number (0 to 255). A CSV cell is either a string or \<open>None\<close>
  (\<open>csv.DictReader\<close> fills the columns a short row lacks with \<open>None\<close>); a row is a
  dictionary from column names to cells.
\<close>

datatype cell = PyNone | Str string

type_synonym row = "string \<rightharpoonup> cell"

text \<open>\<open>row.get(k)\<close> and \<open>row.get(k, "")\<close>.\<close>

definition get :: "row \<Rightarrow> string \<Rightarrow> cell" where
  "get r k = (case r k of None \<Rightarrow> PyNone | Some c \<Rightarrow> c)"

definition get_default :: "row \<Rightarrow> string \<Rightarrow> cell \<Rightarrow> cell" where
  "get_default r k dflt = (case r k of None \<Rightarrow> dflt | Some c \<Rightarrow> c)"

text \<open>\<open>str(value)\<close>: the identity on strings, the text \<open>None\<close> on \<open>None\<close>.\<close>

definition py_str :: "cell \<Rightarrow> string" where
  "py_str v = (case v of PyNone \<Rightarrow> ''None'' | Str s \<Rightarrow> s)"

text \<open>
  Two things the interpreter and its C library decide, not the program: whether
  \<open>strftime\<close> pads \<open>%Y\<close> to four digits for years below 1000, and the limit on the
  number of digits \<open>int\<close> accepts in a string (0 for no limit; 4300 by default in
  current interpreters). Every function that depends on them takes them as a parameter.
\<close>

datatype platform = Platform (pad_year: bool) (int_max_str_digits: nat)

subsection \<open>Character classes and \<open>str\<close> methods\<close>

text \<open>
  The regular expression class \<open>\s\<close> and \<open>str.strip()\<close> use the same whitespace test;
  below code point 256 it holds for these twelve characters. The class \<open>\d\<close> holds for
  the decimal digits, which below 256 are \<open>0\<close> to \<open>9\<close>.
\<close>

definition is_space :: "char \<Rightarrow> bool" where
  "is_space c = (c \<in> set [CHR 0x09, CHR 0x0A, CHR 0x0B, CHR 0x0C, CHR 0x0D,
                          CHR 0x1C, CHR 0x1D, CHR 0x1E, CHR 0x1F, CHR 0x20,
                          CHR 0x85, CHR 0xA0])"

definition is_digit :: "char \<Rightarrow> bool" where
  "is_digit c = (c \<in> set ''0123456789'')"

definition digit_val :: "char \<Rightarrow> nat" where
  "digit_val c =
     (case map_of (zip ''0123456789'' [0, 1, 2, 3, 4, 5, 6, 7, 8, 9]) c of
        None \<Rightarrow> 0 | Some d \<Rightarrow> d)"

definition digit_char :: "nat \<Rightarrow> char" where
  "digit_char d = ''0123456789'' ! d"

definition strip :: "string \<Rightarrow> string" where
  "strip s = rev (dropWhile is_space (rev (dropWhile is_space s)))"

text \<open>The value of a run of decimal digits.\<close>

definition digits_value :: "string \<Rightarrow> nat" where
  "digits_value ds = foldl (\<lambda>n c. 10 * n + digit_val c) 0 ds"

text \<open>
  \<open>int(ds)\<close> on a non-empty run of decimal digits, as the regular expression groups
  deliver it: a ValueError (\<open>None\<close>) when the run is longer than the interpreter's limit.
\<close>

definition int_of_digits :: "platform \<Rightarrow> string \<Rightarrow> nat option" where
  "int_of_digits pf ds =
     (if int_max_str_digits pf \<noteq> 0 \<and> length ds > int_max_str_digits pf then None
      else Some (digits_value ds))"

text \<open>
  \<open>re.search\<close>: the pattern is tried at every start position from the left, the end
  of the string included, and the first success wins. The argument \<open>m\<close> is the
  pattern's matcher at one start position, given the rest of the string from there.
\<close>

fun re_search :: "(string \<Rightarrow> 'a option) \<Rightarrow> string \<Rightarrow> 'a option" where
  "re_search m [] = m []"
| "re_search m (c # cs) = (case m (c # cs) of Some r \<Rightarrow> Some r | None \<Rightarrow> re_search m cs)"

subsection \<open>Calendar dates (\<open>datetime.date\<close>)\<close>

text \<open>A date is the triple (year, month, day); dates compare as these triples do.\<close>

type_synonym date = "nat \<times> nat \<times> nat"

definition is_leap :: "nat \<Rightarrow> bool" where
  "is_leap y = (y mod 4 = 0 \<and> (y mod 100 \<noteq> 0 \<or> y mod 400 = 0))"

definition days_in_month :: "nat \<Rightarrow> nat \<Rightarrow> nat" where
  "days_in_month y m =
     (if m = 2 then (if is_leap y then 29 else 28)
      else if m \<in> {4, 6, 9, 11} then 30 else 31)"

text \<open>
  The constructor \<open>date(y, m, d)\<close>: a ValueError (\<open>None\<close>) outside years 1 to 9999,
  months 1 to 12 and the days of the month.
\<close>

definition mk_date :: "nat \<Rightarrow> nat \<Rightarrow> nat \<Rightarrow> date option" where
  "mk_date y m d =
     (if 1 \<le> y \<and> y \<le> 9999 \<and> 1 \<le> m \<and> m \<le> 12 \<and> 1 \<le> d \<and> d \<le> days_in_month y m
      then Some (y, m, d) else None)"

definition date_min :: date where
  "date_min = (1, 1, 1)"

definition days_before_year :: "nat \<Rightarrow> nat" where
  "days_before_year y = (y - 1) * 365 + (y - 1) div 4 - (y - 1) div 100 + (y - 1) div 400"

text \<open>The days of the year before month \<open>m\<close>, for \<open>1 \<le> m \<le> 12\<close>, from the library's table.\<close>

definition days_before_month :: "nat \<Rightarrow> nat \<Rightarrow> nat" where
  "days_before_month y m =
     [0, 0, 31, 59, 90, 120, 151, 181, 212, 243, 273, 304, 334] ! m
     + (if m > 2 \<and> is_leap y then 1 else 0)"

text \<open>\<open>date.toordinal()\<close>: day 1 is 0001-01-01.\<close>

definition toordinal :: "date \<Rightarrow> nat" where
  "toordinal dt = (case dt of (y, m, d) \<Rightarrow> days_before_year y + days_before_month y m + d)"

text \<open>
  \<open>date.fromordinal(n)\<close> for \<open>1 \<le> n\<close>, by the library's own method: whole 400-year,
  100-year, 4-year and 1-year cycles are taken off, then the month is estimated and
  corrected.
\<close>

definition fromordinal :: "nat \<Rightarrow> date" where
  "fromordinal n =
     (let n0 = n - 1;
          n400 = n0 div 146097; n1 = n0 mod 146097;
          n100 = n1 div 36524; n2 = n1 mod 36524;
          n4 = n2 div 1461; n3 = n2 mod 1461;
          n1y = n3 div 365; n5 = n3 mod 365;
          year = n400 * 400 + 1 + n100 * 100 + n4 * 4 + n1y
      in if n1y = 4 \<or> n100 = 4 then (year - 1, 12, 31)
         else
           (let month = (n5 + 50) div 32;
                preceding = days_before_month year month
            in if preceding > n5
               then (year, month - 1, n5 - (preceding - days_in_month year (month - 1)) + 1)
               else (year, month, n5 - preceding + 1)))"

definition max_ordinal :: nat where
  "max_ordinal = 3652059"

definition ORIGIN :: date where
  "ORIGIN = (1960, 1, 1)"

text \<open>
  \<open>ORIGIN + timedelta(days=n)\<close> for \<open>n \<ge> 0\<close>: an OverflowError (\<open>None\<close>) when the
  day count is beyond \<open>timedelta\<close>'s range or the sum is after 9999-12-31.
\<close>

definition origin_plus_days :: "nat \<Rightarrow> date option" where
  "origin_plus_days n =
     (if n > 999999999 then None
      else if toordinal ORIGIN + n \<le> max_ordinal then Some (fromordinal (toordinal ORIGIN + n))
      else None)"

text \<open>Decimal digits of a natural number, most significant first.\<close>

function nat_digits :: "nat \<Rightarrow> string" where
  "nat_digits n =
     (if n < 10 then [digit_char n] else nat_digits (n div 10) @ [digit_char (n mod 10)])"
  by pat_completeness auto
termination
  by (relation "measure id") auto

definition zero_pad :: "nat \<Rightarrow> string \<Rightarrow> string" where
  "zero_pad w s = replicate (w - length s) CHR ''0'' @ s"

text \<open>\<open>d.strftime("%Y-%m-%d")\<close>.\<close>

definition strftime_ymd :: "platform \<Rightarrow> date \<Rightarrow> string" where
  "strftime_ymd pf dt =
     (case dt of (y, m, d) \<Rightarrow>
        (if pad_year pf then zero_pad 4 (nat_digits y) else nat_digits y)
        @ ''-'' @ zero_pad 2 (nat_digits m) @ ''-'' @ zero_pad 2 (nat_digits d))"

section \<open>Date extractor: \<open>extract_date\<close>\<close>

text \<open>Up to \<open>k\<close> leading digits (a greedy \<open>\d{1,k}\<close>) and the rest.\<close>

definition take_digits :: "nat \<Rightarrow> string \<Rightarrow> string \<times> string" where
  "take_digits k s = (let ds = takeWhile is_digit (take k s) in (ds, drop (length ds) s))"

text \<open>
  The pattern \<open>(\d+)$\<close> at one start position: the greedy digit run must be non-empty
  and reach the end of the string, or the newline that ends the string. A shorter run
  is followed by a digit, so backtracking adds no match.
\<close>

definition match_trailing_digits :: "string \<Rightarrow> string option" where
  "match_trailing_digits s =
     (let ds = takeWhile is_digit s; rest = dropWhile is_digit s
      in if ds \<noteq> [] \<and> (rest = [] \<or> rest = [CHR 0x0A]) then Some ds else None)"

text \<open>\<open>s.rsplit("@", 1)\<close>'s second part, for a string that contains \<open>@\<close>.\<close>

definition after_last_at :: "string \<Rightarrow> string" where
  "after_last_at s = rev (takeWhile (\<lambda>c. c \<noteq> CHR ''@'') (rev s))"

text \<open>
  A literal character, a greedy \<open>\s*\<close>, a greedy \<open>\d{1,2}\<close> and \<open>\d{4}\<close>
  as steps of a matcher. In the two date patterns each of them is followed by
  something the shorter alternatives cannot satisfy (a digit run by a non-digit, a
  whitespace run by a non-space), so the greedy choice is the only one.
\<close>

definition lit :: "char \<Rightarrow> string \<Rightarrow> string option" where
  "lit c s = (case s of [] \<Rightarrow> None | x # xs \<Rightarrow> if x = c then Some xs else None)"

definition skip_spaces :: "string \<Rightarrow> string" where
  "skip_spaces s = dropWhile is_space s"

definition digits_1_2 :: "string \<Rightarrow> (string \<times> string) option" where
  "digits_1_2 s = (let (ds, rest) = take_digits 2 s in if ds = [] then None else Some (ds, rest))"

definition digits_4 :: "string \<Rightarrow> (string \<times> string) option" where
  "digits_4 s = (let (ds, rest) = take_digits 4 s in if length ds = 4 then Some (ds, rest) else None)"

text \<open>
  The pattern \<open>(\d{1,2})/(\d{1,2})\s*-\s*(\d{1,2})/(\d{1,2}),\s*(\d{4})\<close> at one
  start position; the result is the groups 3, 4 and 5.
\<close>

definition match_range :: "string \<Rightarrow> (string \<times> string \<times> string) option" where
  "match_range s =
     (case digits_1_2 s of None \<Rightarrow> None | Some (g1, s1) \<Rightarrow>
      (case lit CHR ''/'' s1 of None \<Rightarrow> None | Some s2 \<Rightarrow>
      (case digits_1_2 s2 of None \<Rightarrow> None | Some (g2, s3) \<Rightarrow>
      (case lit CHR ''-'' (skip_spaces s3) of None \<Rightarrow> None | Some s4 \<Rightarrow>
      (case digits_1_2 (skip_spaces s4) of None \<Rightarrow> None | Some (g3, s5) \<Rightarrow>
      (case lit CHR ''/'' s5 of None \<Rightarrow> None | Some s6 \<Rightarrow>
      (case digits_1_2 s6 of None \<Rightarrow> None | Some (g4, s7) \<Rightarrow>
      (case lit CHR '','' s7 of None \<Rightarrow> None | Some s8 \<Rightarrow>
      (case digits_4 (skip_spaces s8) of None \<Rightarrow> None | Some (g5, s9) \<Rightarrow>
      Some (g3, g4, g5))))))))))"

text \<open>The pattern \<open>(\d{1,2})/(\d{1,2})/(\d{4})\<close> at one start position.\<close>

definition match_single :: "string \<Rightarrow> (string \<times> string \<times> string) option" where
  "match_single s =
     (case digits_1_2 s of None \<Rightarrow> None | Some (g1, s1) \<Rightarrow>
      (case lit CHR ''/'' s1 of None \<Rightarrow> None | Some s2 \<Rightarrow>
      (case digits_1_2 s2 of None \<Rightarrow> None | Some (g2, s3) \<Rightarrow>
      (case lit CHR ''/'' s3 of None \<Rightarrow> None | Some s4 \<Rightarrow>
      (case digits_4 s4 of None \<Rightarrow> None | Some (g3, s5) \<Rightarrow>
      Some (g1, g2, g3))))))"

text \<open>
  The three \<open>try\<close> blocks. Each yields the formatted date, or \<open>None\<close> when the
  pattern does not match or the block is left through \<open>except Exception: pass\<close>.
\<close>

definition date_from_id :: "platform \<Rightarrow> string \<Rightarrow> string option" where
  "date_from_id pf s =
     (if CHR ''@'' \<in> set s then
        (case re_search match_trailing_digits (strip (after_last_at s)) of
           None \<Rightarrow> None
         | Some g \<Rightarrow>
            (case int_of_digits pf g of None \<Rightarrow> None | Some n \<Rightarrow>
            (case origin_plus_days n of None \<Rightarrow> None | Some d \<Rightarrow>
             Some (strftime_ymd pf d))))
      else None)"

definition date_from_range :: "platform \<Rightarrow> string \<Rightarrow> string option" where
  "date_from_range pf s =
     (case re_search match_range s of
        None \<Rightarrow> None
      | Some (g3, g4, g5) \<Rightarrow>
         (case int_of_digits pf g3 of None \<Rightarrow> None | Some mm2 \<Rightarrow>
         (case int_of_digits pf g4 of None \<Rightarrow> None | Some dd2 \<Rightarrow>
         (case int_of_digits pf g5 of None \<Rightarrow> None | Some yyyy \<Rightarrow>
         (case mk_date yyyy mm2 dd2 of None \<Rightarrow> None | Some d \<Rightarrow>
          Some (strftime_ymd pf d))))))"

definition date_from_single :: "platform \<Rightarrow> string \<Rightarrow> string option" where
  "date_from_single pf s =
     (case re_search match_single s of
        None \<Rightarrow> None
      | Some (g1, g2, g3) \<Rightarrow>
         (case int_of_digits pf g3 of None \<Rightarrow> None | Some y \<Rightarrow>
         (case int_of_digits pf g1 of None \<Rightarrow> None | Some m \<Rightarrow>
         (case int_of_digits pf g2 of None \<Rightarrow> None | Some d \<Rightarrow>
         (case mk_date y m d of None \<Rightarrow> None | Some dt \<Rightarrow>
          Some (strftime_ymd pf dt))))))"

definition extract_date :: "platform \<Rightarrow> cell \<Rightarrow> cell" where
  "extract_date pf v =
     (case v of
        PyNone \<Rightarrow> PyNone
      | Str s \<Rightarrow>
         (case date_from_id pf s of Some r \<Rightarrow> Str r | None \<Rightarrow>
         (case date_from_range pf s of Some r \<Rightarrow> Str r | None \<Rightarrow>
         (case date_from_single pf s of Some r \<Rightarrow> Str r | None \<Rightarrow>
          Str s))))"

section \<open>Pollster extractor: \<open>extract_pollster\<close>\<close>

text \<open>
  With \<open>re.IGNORECASE\<close> a letter of the pattern matches itself in either case. The
  patterns of this program contain ASCII letters only, and below code point 256 no other
  character is a case variant of one, so lower-casing the ASCII capitals decides it.
\<close>

definition ascii_lower :: "char \<Rightarrow> char" where
  "ascii_lower c =
     (case map_of (zip ''ABCDEFGHIJKLMNOPQRSTUVWXYZ'' ''abcdefghijklmnopqrstuvwxyz'') c of
        None \<Rightarrow> c | Some l \<Rightarrow> l)"

text \<open>A literal string of the pattern, compared case-insensitively; the rest of the input.\<close>

fun lit_ci :: "string \<Rightarrow> string \<Rightarrow> string option" where
  "lit_ci [] s = Some s"
| "lit_ci (p # ps) [] = None"
| "lit_ci (p # ps) (c # cs) =
     (if ascii_lower c = ascii_lower p then lit_ci ps cs else None)"

text \<open>
  The lazy \<open>(.*?)</a>\<close> under \<open>re.DOTALL\<close>: the group grows one character at a time,
  any character, until the closing tag follows. The result is the group and the rest
  after the closing tag.
\<close>

fun find_close :: "string \<Rightarrow> (string \<times> string) option" where
  "find_close [] = None"
| "find_close (c # cs) =
     (case lit_ci ''</a>'' (c # cs) of
        Some rest \<Rightarrow> Some ([], rest)
      | None \<Rightarrow> (case find_close cs of None \<Rightarrow> None | Some (g, rest) \<Rightarrow> Some (c # g, rest)))"

text \<open>
  The pattern \<open><a[^>]*>(.*?)</a>\<close> at one start position. The greedy \<open>[^>]*\<close> stops
  at the first \<open>>\<close>, and no shorter run is followed by \<open>>\<close>.
\<close>

definition match_anchor :: "string \<Rightarrow> string option" where
  "match_anchor s =
     (case lit CHR ''<'' s of None \<Rightarrow> None | Some s1 \<Rightarrow>
     (case lit_ci ''a'' s1 of None \<Rightarrow> None | Some s2 \<Rightarrow>
     (case lit CHR ''>'' (dropWhile (\<lambda>c. c \<noteq> CHR ''>'') s2) of None \<Rightarrow> None | Some s3 \<Rightarrow>
     (case find_close s3 of None \<Rightarrow> None | Some (g, rest) \<Rightarrow> Some g))))"

text \<open>
  The pattern \<open><[^>]+>\<close> at one start position: the rest of the input after the
  match.
\<close>

definition match_tag :: "string \<Rightarrow> string option" where
  "match_tag s =
     (case lit CHR ''<'' s of None \<Rightarrow> None | Some s1 \<Rightarrow>
        if takeWhile (\<lambda>c. c \<noteq> CHR ''>'') s1 = [] then None
        else lit CHR ''>'' (dropWhile (\<lambda>c. c \<noteq> CHR ''>'') s1))"

text \<open>
  \<open>re.sub(r"<[^>]+>", "", s)\<close>: scanning from the left, a match is dropped and the scan
  goes on behind it; elsewhere one character is kept.
\<close>

function remove_tags :: "string \<Rightarrow> string" where
  "remove_tags [] = []"
| "remove_tags (c # cs) =
     (case match_tag (c # cs) of
        Some rest \<Rightarrow> remove_tags rest
      | None \<Rightarrow> c # remove_tags cs)"
  by pat_completeness auto
termination
proof (relation "measure length")
  show "wf (measure length)" by simp
next
  fix c :: char and cs rest :: string
  assume a: "match_tag (c # cs) = Some rest"
  then have "dropWhile (\<lambda>c. c \<noteq> CHR ''>'') cs = CHR ''>'' # rest"
    by (auto simp: match_tag_def lit_def split: list.splits if_splits)
  then have "length rest < length (dropWhile (\<lambda>c. c \<noteq> CHR ''>'') cs)" by simp
  also have "\<dots> \<le> length cs" by (rule length_dropWhile_le)
  finally show "(rest, c # cs) \<in> measure length" by simp
next
  fix c :: char and cs :: string
  show "(cs, c # cs) \<in> measure length" by simp
qed

definition extract_pollster :: "cell \<Rightarrow> string" where
  "extract_pollster v =
     (case v of
        PyNone \<Rightarrow> []
      | Str s \<Rightarrow>
         (case re_search match_anchor s of
            Some g \<Rightarrow> strip g
          | None \<Rightarrow>
             if CHR ''^'' \<in> set s then strip (takeWhile (\<lambda>c. c \<noteq> CHR ''^'') s)
             else strip (remove_tags s)))"

section \<open>Sponsor extractor: \<open>extract_sponsor\<close>\<close>

text \<open>
  The pattern \<open>\^\s*Sponsor:\s*([^\^]+)\^\<close> at one start position. After the colon
  the greedy \<open>\s*\<close> takes the whole whitespace run and the group the characters up to
  the next caret. Only when the caret follows the whitespace at once does backtracking
  matter: the whitespace run gives its last character to the group. Without a caret
  ahead, or with the caret right behind the colon, there is no match here.
\<close>

definition match_sponsor :: "string \<Rightarrow> string option" where
  "match_sponsor s =
     (case lit CHR ''^'' s of None \<Rightarrow> None | Some s1 \<Rightarrow>
     (case lit_ci ''Sponsor:'' (skip_spaces s1) of None \<Rightarrow> None | Some s2 \<Rightarrow>
        (let ws = takeWhile is_space s2;
             s3 = dropWhile is_space s2;
             body = takeWhile (\<lambda>c. c \<noteq> CHR ''^'') s3;
             s4 = dropWhile (\<lambda>c. c \<noteq> CHR ''^'') s3
         in if s4 = [] then None
            else if body \<noteq> [] then Some body
            else if ws \<noteq> [] then Some [last ws]
            else None)))"

definition extract_sponsor :: "cell \<Rightarrow> string" where
  "extract_sponsor v =
     (case v of
        PyNone \<Rightarrow> []
      | Str s \<Rightarrow> (case re_search match_sponsor s of Some g \<Rightarrow> strip g | None \<Rightarrow> []))"

section \<open>Sort key: \<open>to_date_or_min\<close>\<close>

text \<open>\<open>s.split(sep)\<close> for a one-character separator: always at least one piece.\<close>

fun split_on :: "char \<Rightarrow> string \<Rightarrow> string list" where
  "split_on sep [] = [[]]"
| "split_on sep (c # cs) =
     (if c = sep then [] # split_on sep cs
      else (case split_on sep cs of [] \<Rightarrow> [[c]] | p # ps \<Rightarrow> (c # p) # ps))"

text \<open>
  \<open>int\<close> and \<open>float\<close> skip whitespace around the number; of the twelve whitespace
  characters they accept these eight. A group of digits may hold single underscores
  between digits.
\<close>

definition is_num_space :: "char \<Rightarrow> bool" where
  "is_num_space c = (c \<in> set [CHR 0x09, CHR 0x0A, CHR 0x0B, CHR 0x0C, CHR 0x0D, CHR 0x20,
                              CHR 0x85, CHR 0xA0])"

definition num_strip :: "string \<Rightarrow> string" where
  "num_strip s = rev (dropWhile is_num_space (rev (dropWhile is_num_space s)))"

fun digitpart :: "string \<Rightarrow> bool" where
  "digitpart [] = False"
| "digitpart [c] = is_digit c"
| "digitpart (c # d # cs) =
     (is_digit c \<and> (if d = CHR ''_'' then digitpart cs else digitpart (d # cs)))"

definition digits_of :: "string \<Rightarrow> string" where
  "digits_of s = filter (\<lambda>c. c \<noteq> CHR ''_'') s"

definition split_sign :: "string \<Rightarrow> bool \<times> string" where
  "split_sign s =
     (case s of
        [] \<Rightarrow> (False, [])
      | c # cs \<Rightarrow> if c = CHR ''-'' then (True, cs) else if c = CHR ''+'' then (False, cs)
                 else (False, s))"

text \<open>\<open>int(s)\<close> on an arbitrary string: \<open>None\<close> is the ValueError.\<close>

definition py_int :: "platform \<Rightarrow> string \<Rightarrow> int option" where
  "py_int pf s =
     (let (neg, body) = split_sign (num_strip s)
      in if digitpart body then
           (case int_of_digits pf (digits_of body) of
              None \<Rightarrow> None
            | Some n \<Rightarrow> Some (if neg then - int n else int n))
         else None)"

text \<open>
  The local function \<open>to_date_or_min\<close>. The body of its \<open>try\<close> block is
  \<open>parse_date\<close>: unpacking needs exactly three pieces, \<open>int\<close> must accept each, and
  \<open>date\<close> must accept the three numbers; \<open>None\<close> stands for any exception, which
  \<open>to_date_or_min\<close> turns into \<open>date.min\<close>.
\<close>

definition parse_date :: "platform \<Rightarrow> cell \<Rightarrow> date option" where
  "parse_date pf s =
     (case map (py_int pf) (split_on CHR ''-'' (py_str s)) of
        [Some y, Some m, Some d] \<Rightarrow>
          (if 0 \<le> y \<and> 0 \<le> m \<and> 0 \<le> d then mk_date (nat y) (nat m) (nat d) else None)
      | _ \<Rightarrow> None)"

definition to_date_or_min :: "platform \<Rightarrow> cell \<Rightarrow> date" where
  "to_date_or_min pf s = (case parse_date pf s of Some dt \<Rightarrow> dt | None \<Rightarrow> date_min)"

section \<open>Floating-point numbers\<close>

text \<open>
  A Python \<open>float\<close> is an IEEE 754 binary64 number: \<open>Finite s m e\<close> stands for
  \<open>(-1)\<^sup>s \<sqdot> m \<sqdot> 2\<^sup>e\<close> (zero keeps its sign), and every operation rounds the exact
  result to the nearest representable number, ties to the even mantissa.
\<close>

datatype pyfloat = Finite bool nat int | Infinity bool | NaN

function bit_length :: "nat \<Rightarrow> nat" where
  "bit_length n = (if n = 0 then 0 else Suc (bit_length (n div 2)))"
  by pat_completeness auto
termination
  by (relation "measure id") auto

text \<open>For \<open>n, d > 0\<close>: the largest \<open>k\<close> with \<open>2\<^sup>k \<le> n / d\<close>.\<close>

definition floor_log2 :: "nat \<Rightarrow> nat \<Rightarrow> int" where
  "floor_log2 n d =
     (let k = int (bit_length n) - int (bit_length d)
      in if d * 2 ^ nat k \<le> n * 2 ^ nat (- k) then k else k - 1)"

text \<open>The integer nearest to \<open>num / den\<close>, ties to even.\<close>

definition round_half_even :: "nat \<Rightarrow> nat \<Rightarrow> nat" where
  "round_half_even num den =
     (let q = num div den; r = num mod den
      in if 2 * r > den \<or> (2 * r = den \<and> odd q) then q + 1 else q)"

text \<open>
  The binary64 number nearest to \<open>(-1)\<^sup>s \<sqdot> n / d\<close>: 53 bits of mantissa, exponents
  of the unit in the last place from -1074 (subnormal numbers) to 971, infinity beyond.
\<close>

definition round_ratio :: "bool \<Rightarrow> nat \<Rightarrow> nat \<Rightarrow> pyfloat" where
  "round_ratio sg n d =
     (if n = 0 then Finite sg 0 0
      else
        (let e = floor_log2 n d;
             u = max e (- 1022) - 52;
             m = round_half_even (n * 2 ^ nat (- u)) (d * 2 ^ nat u)
         in if m = 0 then Finite sg 0 0
            else if u > 971 \<or> (u = 971 \<and> m \<ge> 2 ^ 53) then Infinity sg
            else Finite sg m u))"

definition signed :: "bool \<Rightarrow> nat \<Rightarrow> int" where
  "signed sg m = (if sg then - int m else int m)"

fun fadd :: "pyfloat \<Rightarrow> pyfloat \<Rightarrow> pyfloat" where
  "fadd NaN y = NaN"
| "fadd x NaN = NaN"
| "fadd (Infinity s) (Infinity t) = (if s = t then Infinity s else NaN)"
| "fadd (Infinity s) (Finite t m e) = Infinity s"
| "fadd (Finite s m e) (Infinity t) = Infinity t"
| "fadd (Finite s1 m1 e1) (Finite s2 m2 e2) =
     (let e = min e1 e2;
          c = signed s1 m1 * 2 ^ nat (e1 - e) + signed s2 m2 * 2 ^ nat (e2 - e)
      in if c = 0 then Finite (s1 \<and> s2) 0 0
         else round_ratio (c < 0) (nat \<bar>c\<bar> * 2 ^ nat e) (2 ^ nat (- e)))"

fun fmul :: "pyfloat \<Rightarrow> pyfloat \<Rightarrow> pyfloat" where
  "fmul NaN y = NaN"
| "fmul x NaN = NaN"
| "fmul (Infinity s) (Infinity t) = Infinity (s \<noteq> t)"
| "fmul (Infinity s) (Finite t m e) = (if m = 0 then NaN else Infinity (s \<noteq> t))"
| "fmul (Finite s m e) (Infinity t) = (if m = 0 then NaN else Infinity (s \<noteq> t))"
| "fmul (Finite s1 m1 e1) (Finite s2 m2 e2) =
     round_ratio (s1 \<noteq> s2) (m1 * m2 * 2 ^ nat (e1 + e2)) (2 ^ nat (- (e1 + e2)))"

datatype py_error = ZeroDivisionError

text \<open>\<open>x / y\<close>: a zero divisor of either sign raises, whatever \<open>x\<close> is.\<close>

definition fdiv :: "pyfloat \<Rightarrow> pyfloat \<Rightarrow> py_error + pyfloat" where
  "fdiv x y =
     (case y of
        Finite t m2 e2 \<Rightarrow>
          if m2 = 0 then Inl ZeroDivisionError
          else (case x of
                  NaN \<Rightarrow> Inr NaN
                | Infinity s \<Rightarrow> Inr (Infinity (s \<noteq> t))
                | Finite s m1 e1 \<Rightarrow>
                    Inr (round_ratio (s \<noteq> t) (m1 * 2 ^ nat (e1 - e2)) (m2 * 2 ^ nat (e2 - e1))))
      | Infinity t \<Rightarrow>
          (case x of
             NaN \<Rightarrow> Inr NaN
           | Infinity s \<Rightarrow> Inr NaN
           | Finite s m1 e1 \<Rightarrow> Inr (Finite (s \<noteq> t) 0 0))
      | NaN \<Rightarrow> Inr NaN)"

text \<open>\<open>math.isfinite(x)\<close> and \<open>x > 0\<close>.\<close>

definition isfinite :: "pyfloat \<Rightarrow> bool" where
  "isfinite x = (case x of Finite s m e \<Rightarrow> True | _ \<Rightarrow> False)"

definition gt_zero :: "pyfloat \<Rightarrow> bool" where
  "gt_zero x = (case x of Finite s m e \<Rightarrow> \<not> s \<and> m > 0 | Infinity s \<Rightarrow> \<not> s | NaN \<Rightarrow> False)"

definition float_zero :: pyfloat where
  "float_zero = Finite False 0 0"

text \<open>
  The format \<open>f"{x:.5f}"\<close>: the exact value rounded to five decimals, ties to even,
  with at least one digit before the point; the sign is kept even when the digits are
  all zero.
\<close>

definition format_5f :: "pyfloat \<Rightarrow> string" where
  "format_5f x =
     (case x of
        NaN \<Rightarrow> ''nan''
      | Infinity s \<Rightarrow> (if s then ''-inf'' else ''inf'')
      | Finite s m e \<Rightarrow>
         (let k = round_half_even (m * 100000 * 2 ^ nat e) (2 ^ nat (- e));
              ds = zero_pad 6 (nat_digits k)
          in (if s then ''-'' else []) @ take (length ds - 5) ds @ ''.''
             @ drop (length ds - 5) ds))"

text \<open>
  \<open>float(s)\<close> on a string: optional whitespace around, an optional sign, then
  \<open>inf\<close>, \<open>infinity\<close> or \<open>nan\<close> in any case, or a decimal number: digits with an
  optional point (at least one digit on one side) and an optional exponent. The decimal
  value is rounded once. \<open>None\<close> is the ValueError.
\<close>

definition is_exp_char :: "char \<Rightarrow> bool" where
  "is_exp_char c = (c = CHR ''e'' \<or> c = CHR ''E'')"

definition float_of_string :: "string \<Rightarrow> pyfloat option" where
  "float_of_string s =
     (let (sg, body) = split_sign (num_strip s);
          low = map ascii_lower body
      in if low = ''inf'' \<or> low = ''infinity'' then Some (Infinity sg)
         else if low = ''nan'' then Some NaN
         else
           (let mant = takeWhile (\<lambda>c. \<not> is_exp_char c) body;
                ex = dropWhile (\<lambda>c. \<not> is_exp_char c) body;
                ip = takeWhile (\<lambda>c. c \<noteq> CHR ''.'') mant;
                fr = dropWhile (\<lambda>c. c \<noteq> CHR ''.'') mant;
                fp = (if fr = [] then [] else tl fr);
                mant_ok = (if fr = [] then digitpart ip
                           else (ip = [] \<or> digitpart ip) \<and> (fp = [] \<or> digitpart fp)
                                \<and> \<not> (ip = [] \<and> fp = []));
                (esg, ebody) = split_sign (if ex = [] then [] else tl ex);
                exp_ok = (ex = [] \<or> digitpart ebody)
            in if mant_ok \<and> exp_ok then
                 (let n = digits_value (digits_of (ip @ fp));
                      x = signed esg (digits_value (digits_of ebody))
                          - int (length (digits_of fp))
                  in Some (round_ratio sg (n * 10 ^ nat x) (10 ^ nat (- x))))
               else None))"

text \<open>\<open>float(v)\<close> on a cell: \<open>None\<close> is the TypeError on \<open>None\<close> or the ValueError.\<close>

definition py_float :: "cell \<Rightarrow> pyfloat option" where
  "py_float v = (case v of PyNone \<Rightarrow> None | Str s \<Rightarrow> float_of_string s)"

section \<open>Schema rewriter: \<open>compute_fieldnames\<close>\<close>

text \<open>
  Python's \<open>list.index(x)\<close>: position of the first occurrence. It is only called
  under the guard \<open>x in fields\<close>, so the ValueError branch is never reached; on a list
  without \<open>x\<close> the model returns the length.
\<close>

fun index_of :: "string list \<Rightarrow> string \<Rightarrow> nat" where
  "index_of [] x = 0"
| "index_of (y # ys) x = (if y = x then 0 else Suc (index_of ys x))"

text \<open>Python's \<open>list.insert(i, x)\<close> for \<open>i \<ge> 0\<close>: an index past the end appends.\<close>

definition list_insert :: "nat \<Rightarrow> string \<Rightarrow> string list \<Rightarrow> string list" where
  "list_insert i x xs = take i xs @ x # drop i xs"

text \<open>
  One round of the loop \<open>for col in ("Disapprove", "Net")\<close>: \<open>list.remove\<close> deletes the
  first occurrence only, and is guarded by the membership test.
\<close>

definition remove_col :: "string \<Rightarrow> string list \<Rightarrow> string list" where
  "remove_col col fields = (if col \<in> set fields then remove1 col fields else fields)"

definition insert_after :: "string \<Rightarrow> string \<Rightarrow> string list \<Rightarrow> string list" where
  "insert_after anchor new fields =
     (if anchor \<in> set fields \<and> new \<notin> set fields
        then list_insert (index_of fields anchor + 1) new fields
      else if new \<notin> set fields then fields @ [new]
      else fields)"

definition compute_fieldnames :: "string list \<Rightarrow> string list" where
  "compute_fieldnames orig_fields =
     (let fields = orig_fields;
          fields = remove_col ''Disapprove'' fields;
          fields = remove_col ''Net'' fields;
          fields = insert_after ''Pollster'' ''Sponsor'' fields;
          fields = insert_after ''Approve'' ''RollingWeightedApprove'' fields
      in fields)"

subsection \<open>The same function on a store of list objects\<close>

text \<open>
  To state that the caller's list is left alone, the function is also given as the code
  runs it: lists are objects in a store, addressed by their index. The call
  \<open>list(orig_fields)\<close> allocates a new object, and every later \<open>remove\<close>,
  \<open>insert\<close> and \<open>append\<close> mutates that object in place; its address is returned.
\<close>

type_synonym store = "string list list"

definition alloc :: "store \<Rightarrow> string list \<Rightarrow> store \<times> nat" where
  "alloc h v = (h @ [v], length h)"

definition mutate :: "store \<Rightarrow> nat \<Rightarrow> (string list \<Rightarrow> string list) \<Rightarrow> store" where
  "mutate h a f = h[a := f (h ! a)]"

definition compute_fieldnames_store :: "store \<Rightarrow> nat \<Rightarrow> store \<times> nat" where
  "compute_fieldnames_store h orig_fields =
     (let (h, fields) = alloc h (h ! orig_fields);
          h = mutate h fields (remove_col ''Disapprove'');
          h = mutate h fields (remove_col ''Net'');
          h = mutate h fields (insert_after ''Pollster'' ''Sponsor'');
          h = mutate h fields (insert_after ''Approve'' ''RollingWeightedApprove'')
      in (h, fields))"

subsection \<open>The schema invariant as the specification words it\<close>

text \<open>
  The specification's reading of the output schema, kept apart from the code's
  \<open>compute_fieldnames\<close>: drop every column named \<open>Disapprove\<close> or \<open>Net\<close>; put
  \<open>Sponsor\<close> immediately after \<open>Pollster\<close>, or at the end if \<open>Pollster\<close> is absent and
  \<open>Sponsor\<close> is absent; then put \<open>RollingWeightedApprove\<close> immediately after
  \<open>Approve\<close>, or at the end if \<open>Approve\<close> is absent and it is absent.
\<close>

fun place_after :: "string \<Rightarrow> string \<Rightarrow> string list \<Rightarrow> string list" where
  "place_after anchor new [] = []"
| "place_after anchor new (c # cs) =
     (if c = anchor then c # new # cs else c # place_after anchor new cs)"

definition spec_add_column :: "string \<Rightarrow> string \<Rightarrow> string list \<Rightarrow> string list" where
  "spec_add_column anchor new cols =
     (if anchor \<in> set cols then place_after anchor new cols
      else if new \<notin> set cols then cols @ [new]
      else cols)"

definition spec_schema :: "string list \<Rightarrow> string list" where
  "spec_schema cols =
     spec_add_column ''Approve'' ''RollingWeightedApprove''
       (spec_add_column ''Pollster'' ''Sponsor''
         (filter (\<lambda>c. c \<noteq> ''Disapprove'' \<and> c \<noteq> ''Net'') cols))"

text \<open>Column \<open>b\<close> stands immediately after column \<open>a\<close> somewhere in the list.\<close>

fun adjacent :: "string \<Rightarrow> string \<Rightarrow> string list \<Rightarrow> bool" where
  "adjacent a b (x # y # zs) = ((x = a \<and> y = b) \<or> adjacent a b (y # zs))"
| "adjacent a b [x] = False"
| "adjacent a b [] = False"

section \<open>The pipeline: \<open>main\<close>\<close>

subsection \<open>Row pipeline\<close>

text \<open>\<open>d.setdefault(k, v)\<close>: only a missing key is set.\<close>

definition setdefault :: "row \<Rightarrow> string \<Rightarrow> cell \<Rightarrow> row" where
  "setdefault r k v = (if k \<in> dom r then r else r(k \<mapsto> v))"

text \<open>
  The body of the loop \<open>for row in reader\<close>: the output row made from one input row.
  The sponsor is taken from the input row's \<open>Pollster\<close> cell before that cell is
  cleaned in the output row.
\<close>

definition process_row :: "platform \<Rightarrow> string list \<Rightarrow> row \<Rightarrow> row" where
  "process_row pf fieldnames row =
     (let out_row = row;
          out_row = (if ''Dates'' \<in> dom row
                     then out_row(''Dates'' \<mapsto> extract_date pf (get row ''Dates''))
                     else out_row);
          sponsor_val = extract_sponsor (get row ''Pollster'');
          out_row = out_row(''Sponsor'' \<mapsto> Str sponsor_val);
          out_row = (if ''Pollster'' \<in> dom row
                     then out_row(''Pollster'' \<mapsto> Str (extract_pollster (get row ''Pollster'')))
                     else out_row);
          out_row = foldl (\<lambda>r k. setdefault r k (Str [])) out_row fieldnames
      in out_row)"

subsection \<open>Sort stage\<close>

text \<open>
  \<open>rows_out.sort(key=..., reverse=True)\<close>. The interpreter reverses the list, sorts it
  stably in ascending key order and reverses the result; a stable sort has one possible
  result, which the insertion sort \<open>sort_key\<close> computes.
\<close>

definition sort_reverse :: "('a \<Rightarrow> 'k::linorder) \<Rightarrow> 'a list \<Rightarrow> 'a list" where
  "sort_reverse key xs = rev (sort_key key (rev xs))"

definition row_key :: "platform \<Rightarrow> row \<Rightarrow> date" where
  "row_key pf r = to_date_or_min pf (get r ''Dates'')"

subsection \<open>Aggregator\<close>

text \<open>
  The two \<open>float\<close> conversions of a \<open>try\<close> block; \<open>None\<close> when either raises.
\<close>

definition weight_value :: "row \<Rightarrow> (pyfloat \<times> pyfloat) option" where
  "weight_value r =
     (case py_float (get_default r ''Influence'' (Str [])) of
        None \<Rightarrow> None
      | Some w \<Rightarrow>
         (case py_float (get_default r ''Approve'' (Str [])) of
            None \<Rightarrow> None
          | Some v \<Rightarrow> Some (w, v)))"

text \<open>The inclusion test \<open>math.isfinite(w) and w > 0 and math.isfinite(v)\<close>.\<close>

definition included :: "pyfloat \<Rightarrow> pyfloat \<Rightarrow> bool" where
  "included w v = (isfinite w \<and> gt_zero w \<and> isfinite v)"

text \<open>One round of the first loop: \<open>continue\<close> on an exception.\<close>

definition global_step :: "pyfloat \<times> pyfloat \<Rightarrow> row \<Rightarrow> pyfloat \<times> pyfloat" where
  "global_step acc r =
     (case acc of (sum_w, sum_wv) \<Rightarrow>
        (case weight_value r of
           None \<Rightarrow> (sum_w, sum_wv)
         | Some (w, v) \<Rightarrow>
            if included w v then (fadd sum_w w, fadd sum_wv (fmul w v)) else (sum_w, sum_wv)))"

text \<open>
  \<open>weighted_approve = (sum_wv / sum_w) if sum_w > 0 else None\<close>: the outer result is
  the exception of the division, if any.
\<close>

definition weighted_approve_of :: "pyfloat \<times> pyfloat \<Rightarrow> py_error + pyfloat option" where
  "weighted_approve_of acc =
     (case acc of (sum_w, sum_wv) \<Rightarrow>
        if gt_zero sum_w then
          (case fdiv sum_wv sum_w of Inl e \<Rightarrow> Inl e | Inr q \<Rightarrow> Inr (Some q))
        else Inr None)"

text \<open>
  One round of the second loop: on an exception both numbers become \<open>nan\<close>, the
  accumulator is updated under the same test, and the row gets its
  \<open>RollingWeightedApprove\<close>.
\<close>

definition rolling_update :: "pyfloat \<times> pyfloat \<Rightarrow> row \<Rightarrow> pyfloat \<times> pyfloat" where
  "rolling_update acc r =
     (case acc of (cum_w, cum_wv) \<Rightarrow>
        (let (w, v) = (case weight_value r of None \<Rightarrow> (NaN, NaN) | Some wv \<Rightarrow> wv)
         in if included w v then (fadd cum_w w, fadd cum_wv (fmul w v)) else (cum_w, cum_wv)))"

definition rolling_text :: "pyfloat \<times> pyfloat \<Rightarrow> py_error + string" where
  "rolling_text acc =
     (case acc of (cum_w, cum_wv) \<Rightarrow>
        if gt_zero cum_w then
          (case fdiv cum_wv cum_w of Inl e \<Rightarrow> Inl e | Inr q \<Rightarrow> Inr (format_5f q))
        else Inr [])"

fun rolling :: "pyfloat \<times> pyfloat \<Rightarrow> row list \<Rightarrow> py_error + row list" where
  "rolling acc [] = Inr []"
| "rolling acc (r # rs) =
     (let acc' = rolling_update acc r
      in case rolling_text acc' of
           Inl e \<Rightarrow> Inl e
         | Inr t \<Rightarrow>
            (case rolling acc' rs of
               Inl e \<Rightarrow> Inl e
             | Inr rs' \<Rightarrow> Inr (r(''RollingWeightedApprove'' \<mapsto> Str t) # rs')))"

subsection \<open>Writer\<close>

text \<open>
  \<open>csv.DictWriter\<close> with \<open>extrasaction='ignore'\<close>: one cell per schema column, the
  empty string for a missing key or \<open>None\<close>.
\<close>

definition write_row :: "string list \<Rightarrow> row \<Rightarrow> string list" where
  "write_row fieldnames r =
     map (\<lambda>k. case get_default r k (Str []) of PyNone \<Rightarrow> [] | Str s \<Rightarrow> s) fieldnames"

definition report_line :: "pyfloat option \<Rightarrow> string" where
  "report_line weighted_approve =
     (case weighted_approve of
        Some x \<Rightarrow> ''Weighted Approve (by Influence): '' @ format_5f x
      | None \<Rightarrow> ''Weighted Approve (by Influence): N/A (no valid rows)'')"

text \<open>
  What a run leaves behind: the header and the data rows of the output file, and the
  line on standard output. The records behind the data rows are kept as well.
\<close>

datatype run_result = Written (out_header: "string list") (out_records: "row list")
  (out_rows: "string list list") (out_line: string)

text \<open>
  \<open>main\<close> from the point where both files are open: \<open>header\<close> is
  \<open>reader.fieldnames or []\<close> and \<open>rows\<close> are the dictionaries the reader yields. An
  exception that nothing catches ends the run before the output file is written.
\<close>

definition main :: "platform \<Rightarrow> string list \<Rightarrow> row list \<Rightarrow> py_error + run_result" where
  "main pf header rows =
     (let fieldnames = compute_fieldnames header;
          rows_out = map (process_row pf fieldnames) rows;
          rows_out = sort_reverse (row_key pf) rows_out;
          sums = foldl global_step (float_zero, float_zero) rows_out
      in case weighted_approve_of sums of
           Inl e \<Rightarrow> Inl e
         | Inr weighted_approve \<Rightarrow>
            (case rolling (float_zero, float_zero) rows_out of
               Inl e \<Rightarrow> Inl e
             | Inr rows_out \<Rightarrow>
                Inr (Written fieldnames rows_out (map (write_row fieldnames) rows_out)
                       (report_line weighted_approve))))"

section \<open>Notions used in the statements\<close>

subsection \<open>The aggregate as the specification words it\<close>

text \<open>
  A row qualifies when both fields parse, the weight is finite and strictly positive
  and the value is finite. The running sums of a sequence of rows add up the weights,
  and the products of weight and value, of its qualifying rows from first to last.
\<close>

definition qualifies :: "row \<Rightarrow> bool" where
  "qualifies r = (case weight_value r of None \<Rightarrow> False | Some (w, v) \<Rightarrow> included w v)"

definition weight_of :: "row \<Rightarrow> pyfloat" where
  "weight_of r = (case weight_value r of None \<Rightarrow> NaN | Some (w, v) \<Rightarrow> w)"

definition weighted_value_of :: "row \<Rightarrow> pyfloat" where
  "weighted_value_of r = (case weight_value r of None \<Rightarrow> NaN | Some (w, v) \<Rightarrow> fmul w v)"

definition running_weight :: "row list \<Rightarrow> pyfloat" where
  "running_weight rs = foldl fadd float_zero (map weight_of (filter qualifies rs))"

definition running_weighted_value :: "row list \<Rightarrow> pyfloat" where
  "running_weighted_value rs = foldl fadd float_zero (map weighted_value_of (filter qualifies rs))"

definition is_zero :: "pyfloat \<Rightarrow> bool" where
  "is_zero x = (case x of Finite s m e \<Rightarrow> m = 0 | _ \<Rightarrow> False)"

text \<open>
  Invariants of the model's numbers: a finite number produced by rounding has an
  exponent of at least -1074, and a sum of positive numbers is not negative.
\<close>

definition valid_float :: "pyfloat \<Rightarrow> bool" where
  "valid_float x = (case x of Finite s m e \<Rightarrow> - 1074 \<le> e | _ \<Rightarrow> True)"

definition nonneg_float :: "pyfloat \<Rightarrow> bool" where
  "nonneg_float x = (case x of Finite s m e \<Rightarrow> \<not> s \<and> - 1074 \<le> e | Infinity s \<Rightarrow> \<not> s | NaN \<Rightarrow> False)"

text \<open>
  The text a row receives once the rows \<open>rs\<close>, up to and including it, are accumulated:
  the empty string while the running weight is still zero, and the quotient of the running
  sums in the five-decimal format otherwise.
\<close>

definition rolling_value :: "row list \<Rightarrow> string" where
  "rolling_value rs =
     (if is_zero (running_weight rs) then []
      else (case fdiv (running_weighted_value rs) (running_weight rs) of
              Inl e \<Rightarrow> [] | Inr q \<Rightarrow> format_5f q))"

fun annotate_from :: "row list \<Rightarrow> row list \<Rightarrow> row list" where
  "annotate_from pre [] = []"
| "annotate_from pre (r # rs) =
     r(''RollingWeightedApprove'' \<mapsto> Str (rolling_value (pre @ [r]))) # annotate_from (pre @ [r]) rs"

subsection \<open>The sponsor segment\<close>

text \<open>
  The segment as the specification words it, read at one start position: a caret, the
  label in any case, whitespace around the colon, and as content the non-empty text up to
  the next caret. \<open>spec_sponsor\<close> returns the trimmed content of the first such segment.
\<close>

definition spec_match_sponsor :: "string \<Rightarrow> string option" where
  "spec_match_sponsor s =
     (case lit CHR ''^'' s of None \<Rightarrow> None | Some s1 \<Rightarrow>
     (case lit_ci ''Sponsor'' s1 of None \<Rightarrow> None | Some s2 \<Rightarrow>
     (case lit CHR '':'' (skip_spaces s2) of None \<Rightarrow> None | Some s3 \<Rightarrow>
        (let content = takeWhile (\<lambda>c. c \<noteq> CHR ''^'') s3
         in if dropWhile (\<lambda>c. c \<noteq> CHR ''^'') s3 \<noteq> [] \<and> content \<noteq> [] then Some content
            else None))))"

definition spec_sponsor :: "cell \<Rightarrow> string" where
  "spec_sponsor v =
     (case v of
        PyNone \<Rightarrow> []
      | Str s \<Rightarrow> (case re_search spec_match_sponsor s of Some g \<Rightarrow> strip g | None \<Rightarrow> []))"

text \<open>
  The segment the code looks for, stated without reference to the matcher: \<open>t\<close> begins
  with a caret, optional whitespace, the label in any case and the colon; after the colon
  comes the non-empty text \<open>content\<close> without a caret, and then a caret.
\<close>

definition sponsor_segment :: "string \<Rightarrow> string \<Rightarrow> bool" where
  "sponsor_segment t content =
     (\<exists>w l post. t = CHR ''^'' # w @ l @ CHR '':'' # content @ CHR ''^'' # post
        \<and> list_all is_space w \<and> map ascii_lower l = ''sponsor''
        \<and> content \<noteq> [] \<and> CHR ''^'' \<notin> set content)"

subsection \<open>The rows between the stages\<close>

text \<open>
  The enriched records after the sort stage, and the input rows arranged in the order
  in which the output lists them.
\<close>

definition enriched :: "platform \<Rightarrow> string list \<Rightarrow> row list \<Rightarrow> row list" where
  "enriched pf header rows =
     sort_reverse (row_key pf) (map (process_row pf (compute_fieldnames header)) rows)"

definition input_order :: "platform \<Rightarrow> string list \<Rightarrow> row list \<Rightarrow> row list" where
  "input_order pf header rows =
     sort_reverse (\<lambda>r. row_key pf (process_row pf (compute_fieldnames header) r)) rows"

text \<open>The interpreter never lowers the digit limit below 640, unless it is switched off.\<close>

definition valid_platform :: "platform \<Rightarrow> bool" where
  "valid_platform pf = (int_max_str_digits pf = 0 \<or> 640 \<le> int_max_str_digits pf)"

(* ==== properties ==== *)

section \<open>Properties of the floating-point model\<close>

declare nat_digits.simps [simp del] bit_length.simps [simp del]

lemma bit_length_bounds:
  "0 < n \<Longrightarrow> 2 ^ (bit_length n - 1) \<le> n \<and> n < 2 ^ bit_length n"
proof (induction n rule: bit_length.induct)
  case (1 n)
  show ?case
  proof (cases "n div 2 = 0")
    case True
    with "1.prems" have n1: "n = 1" by (cases n) auto
    have "bit_length (1::nat) = 1"
      by (subst bit_length.simps, simp, subst bit_length.simps, simp)
    with n1 show ?thesis by simp
  next
    case False
    then have pos: "0 < n div 2" by simp
    from "1.prems" have nz: "n \<noteq> 0" by simp
    from "1.IH" [OF nz pos]
    have ih: "2 ^ (bit_length (n div 2) - 1) \<le> n div 2" "n div 2 < 2 ^ bit_length (n div 2)"
      by simp_all
    have bl: "bit_length n = Suc (bit_length (n div 2))"
      using nz by (subst bit_length.simps) simp
    have blpos: "0 < bit_length (n div 2)"
      using pos by (subst bit_length.simps) simp
    then obtain k where k: "bit_length (n div 2) = Suc k" by (cases "bit_length (n div 2)") auto
    from ih k have "2 ^ k \<le> n div 2" "n div 2 < 2 ^ Suc k" by simp_all
    then have "2 * 2 ^ k \<le> n" "n < 2 * 2 ^ Suc k" by linarith+
    then show ?thesis by (simp add: bl k)
  qed
qed

lemma floor_log2_lower:
  assumes "0 < n" "0 < d"
  shows "d * 2 ^ nat (floor_log2 n d) \<le> n * 2 ^ nat (- floor_log2 n d)"
proof -
  define bn where "bn = bit_length n"
  define bd where "bd = bit_length d"
  define k0 where "k0 = int bn - int bd"
  from bit_length_bounds [OF assms(1)] have n: "2 ^ (bn - 1) \<le> n" by (simp add: bn_def)
  from bit_length_bounds [OF assms(2)] have d: "d < 2 ^ bd" by (simp add: bd_def)
  have bnpos: "0 < bn" using assms(1) unfolding bn_def by (subst bit_length.simps) simp
  show ?thesis
  proof (cases "d * 2 ^ nat k0 \<le> n * 2 ^ nat (- k0)")
    case True
    then show ?thesis by (simp add: floor_log2_def Let_def k0_def bn_def bd_def)
  next
    case False
    then have fl: "floor_log2 n d = k0 - 1"
      by (simp add: floor_log2_def Let_def k0_def bn_def bd_def)
    show ?thesis
    proof (cases "1 \<le> k0")
      case True
      then have e1: "nat (k0 - 1) = bn - bd - 1" and e2: "nat (- (k0 - 1)) = 0"
        by (simp_all add: k0_def)
      have pw: "(2::nat) ^ nat (- (k0 - 1)) = 1" by (simp only: e2 power_0)
      from True have le: "bd + 1 \<le> bn" by (simp add: k0_def)
      have "d * 2 ^ (bn - bd - 1) \<le> 2 ^ bd * 2 ^ (bn - bd - 1)"
        using d by (simp add: mult_le_mono1)
      also have "\<dots> = 2 ^ (bn - 1)"
        using le by (simp add: power_add [symmetric])
      also have "\<dots> \<le> n" by (rule n)
      finally have "d * 2 ^ (bn - bd - 1) \<le> n" .
      then show ?thesis by (simp only: fl e1 pw mult_1_right)
    next
      case False
      then have e1: "nat (k0 - 1) = 0" and e2: "nat (- (k0 - 1)) = bd + 1 - bn"
        by (simp_all add: k0_def)
      have pw: "(2::nat) ^ nat (k0 - 1) = 1" by (simp only: e1 power_0)
      from False have le: "bn \<le> bd" by (simp add: k0_def)
      have "d \<le> 2 ^ bd" using d by simp
      also have "\<dots> = 2 ^ (bn - 1) * 2 ^ (bd + 1 - bn)"
        using le bnpos by (simp add: power_add [symmetric])
      also have "\<dots> \<le> n * 2 ^ (bd + 1 - bn)"
        using n by (simp add: mult_le_mono1)
      finally have "d \<le> n * 2 ^ (bd + 1 - bn)" .
      then show ?thesis by (simp only: fl e2 pw mult_1_right)
    qed
  qed
qed

lemma round_half_even_pos: "0 < den \<Longrightarrow> den \<le> num \<Longrightarrow> 0 < round_half_even num den"
proof -
  assume a: "0 < den" "den \<le> num"
  then have "1 \<le> num div den" by (simp add: Suc_le_eq div_greater_zero_iff)
  then show ?thesis by (simp add: round_half_even_def Let_def)
qed

lemma round_ratio_valid:
  assumes "round_ratio sg n d = Finite s m e"
  shows "- 1074 \<le> e"
proof -
  define u where "u = max (floor_log2 n d) (- 1022) - 52"
  have u: "- 1074 \<le> u" by (simp add: u_def)
  define mm where "mm = round_half_even (n * 2 ^ nat (- u)) (d * 2 ^ nat u)"
  have "round_ratio sg n d =
      (if n = 0 then Finite sg 0 0
       else if mm = 0 then Finite sg 0 0
       else if u > 971 \<or> (u = 971 \<and> mm \<ge> 2 ^ 53) then Infinity sg
       else Finite sg mm u)"
    unfolding round_ratio_def Let_def u_def mm_def by (rule refl)
  with assms have "e = 0 \<or> e = u" by (auto split: if_splits)
  with u show ?thesis by auto
qed

lemma round_ratio_pos:
  assumes "0 < n" "0 < d" "d \<le> n * 2 ^ 1074"
  shows "round_ratio False n d = Infinity False
       \<or> (\<exists>m u. round_ratio False n d = Finite False m u \<and> 0 < m \<and> - 1074 \<le> u)"
proof -
  define el where "el = floor_log2 n d"
  define u where "u = max el (- 1022) - 52"
  define num where "num = n * 2 ^ nat (- u)"
  define den where "den = d * 2 ^ nat u"
  have low: "d * 2 ^ nat el \<le> n * 2 ^ nat (- el)"
    unfolding el_def using assms(1,2) by (rule floor_log2_lower)
  have denpos: "0 < den" using assms(2) by (simp add: den_def)
  have "den \<le> num"
  proof (cases "- 1022 \<le> el")
    case True
    then have u: "u = el - 52" by (simp add: u_def)
    show ?thesis
    proof (cases "52 \<le> el")
      case True
      then have z: "nat (- u) = 0" "nat (- el) = 0" by (simp_all add: u)
      have "nat u \<le> nat el" using True by (simp add: u)
      then have "(2::nat) ^ nat u \<le> 2 ^ nat el" by (rule power_increasing) simp
      then have "d * 2 ^ nat u \<le> d * 2 ^ nat el" by (rule mult_le_mono2)
      also have "\<dots> \<le> n * 2 ^ nat (- el)" by (rule low)
      also have "\<dots> = n * 2 ^ nat (- u)" by (simp only: z)
      finally show ?thesis by (simp only: num_def den_def)
    next
      case False
      then have nu: "nat u = 0" by (simp add: u)
      show ?thesis
      proof (cases "0 \<le> el")
        case True
        then have "nat (- el) = 0" by simp
        with low have a: "d * 2 ^ nat el \<le> n" by simp
        have "d * 1 \<le> d * 2 ^ nat el" by (rule mult_le_mono2) simp
        then have b: "d \<le> d * 2 ^ nat el" by simp
        have "n * 1 \<le> n * 2 ^ nat (- u)" by (rule mult_le_mono2) simp
        then have c: "n \<le> n * 2 ^ nat (- u)" by simp
        from b a c have "d \<le> n * 2 ^ nat (- u)" by linarith
        then show ?thesis by (simp add: num_def den_def nu)
      next
        case False
        then have "nat el = 0" by simp
        with low have a: "d \<le> n * 2 ^ nat (- el)" by simp
        have "nat (- el) \<le> nat (- u)" using False by (simp add: u)
        then have "(2::nat) ^ nat (- el) \<le> 2 ^ nat (- u)" by (rule power_increasing) simp
        then have "n * 2 ^ nat (- el) \<le> n * 2 ^ nat (- u)" by (rule mult_le_mono2)
        with a have "d \<le> n * 2 ^ nat (- u)" by linarith
        then show ?thesis by (simp add: num_def den_def nu)
      qed
    qed
  next
    case False
    then have u: "u = - 1074" by (simp add: u_def)
    then show ?thesis using assms(3) by (simp add: num_def den_def)
  qed
  with denpos have mpos: "0 < round_half_even num den" by (rule round_half_even_pos)
  have ulow: "- 1074 \<le> u" by (simp add: u_def)
  have "round_ratio False n d =
      (if n = 0 then Finite False 0 0
       else if round_half_even num den = 0 then Finite False 0 0
       else if u > 971 \<or> (u = 971 \<and> round_half_even num den \<ge> 2 ^ 53) then Infinity False
       else Finite False (round_half_even num den) u)"
    unfolding round_ratio_def Let_def u_def num_def den_def el_def by (rule refl)
  with mpos ulow assms(1) show ?thesis by (auto split: if_splits)
qed

section \<open>Properties of the accumulator\<close>

lemma float_of_string_shape:
  "\<exists>A B C sg N D. float_of_string s =
     (if A then Some (Infinity sg) else if B then Some NaN
      else if C then Some (round_ratio sg N D) else None)"
  unfolding float_of_string_def Let_def split_def by (intro exI) (rule refl)

lemma float_of_string_valid: "float_of_string s = Some x \<Longrightarrow> valid_float x"
proof -
  assume a: "float_of_string s = Some x"
  from float_of_string_shape [of s] obtain A B C sg N D where
    "float_of_string s =
     (if A then Some (Infinity sg) else if B then Some NaN
      else if C then Some (round_ratio sg N D) else None)" by blast
  with a have "x = Infinity sg \<or> x = NaN \<or> x = round_ratio sg N D"
    by (auto split: if_splits)
  moreover have "valid_float (round_ratio sg N D)"
    by (cases "round_ratio sg N D") (auto simp: valid_float_def dest: round_ratio_valid)
  ultimately show ?thesis by (auto simp: valid_float_def)
qed

lemma py_float_valid: "py_float c = Some x \<Longrightarrow> valid_float x"
  by (auto simp: py_float_def split: cell.splits dest: float_of_string_valid)

lemma fadd_pos:
  assumes a: "nonneg_float a" and w: "valid_float w" "isfinite w" "gt_zero w"
  shows "nonneg_float (fadd a w) \<and> gt_zero (fadd a w)"
proof -
  from w obtain m2 e2 where wf: "w = Finite False m2 e2" and m2: "0 < m2" and e2: "- 1074 \<le> e2"
    by (cases w) (auto simp: valid_float_def isfinite_def gt_zero_def)
  show ?thesis
  proof (cases a)
    case (Finite s m1 e1)
    with a have s: "\<not> s" and e1: "- 1074 \<le> e1" by (auto simp: nonneg_float_def)
    define e where "e = min e1 e2"
    define c where "c = int m1 * 2 ^ nat (e1 - e) + int m2 * 2 ^ nat (e2 - e)"
    have "0 < int m2 * 2 ^ nat (e2 - e)" using m2 by simp
    moreover have "0 \<le> int m1 * 2 ^ nat (e1 - e)" by simp
    ultimately have cpos: "0 < c" unfolding c_def by linarith
    have elow: "- 1074 \<le> e" using e1 e2 by (simp add: e_def)
    define n where "n = nat \<bar>c\<bar> * 2 ^ nat e"
    define d where "d = (2::nat) ^ nat (- e)"
    have npos: "0 < n" using cpos by (simp add: n_def)
    have dpos: "0 < d" by (simp add: d_def)
    have "nat (- e) \<le> 1074" using elow by simp
    then have "d \<le> 2 ^ 1074" unfolding d_def by (rule power_increasing) simp
    also have "\<dots> = 1 * 2 ^ 1074" by simp
    also have "\<dots> \<le> n * 2 ^ 1074" using npos by (intro mult_le_mono1) simp
    finally have dn: "d \<le> n * 2 ^ 1074" .
    have eq: "fadd a w = round_ratio False n d"
      using cpos s by (simp add: Finite wf Let_def signed_def e_def [symmetric] c_def [symmetric]
          n_def d_def)
    from round_ratio_pos [OF npos dpos dn] show ?thesis
      by (auto simp: eq nonneg_float_def gt_zero_def)
  next
    case (Infinity s)
    with a show ?thesis by (simp add: wf nonneg_float_def gt_zero_def)
  next
    case NaN
    with a show ?thesis by (simp add: nonneg_float_def)
  qed
qed

lemma global_step_eq: "global_step acc r = rolling_update acc r"
  by (auto simp: global_step_def rolling_update_def included_def isfinite_def
      split: prod.splits option.splits)

lemma rolling_update_qualifies:
  "rolling_update acc r =
     (if qualifies r then (fadd (fst acc) (weight_of r), fadd (snd acc) (weighted_value_of r))
      else acc)"
  by (auto simp: rolling_update_def qualifies_def weight_of_def weighted_value_of_def
      included_def isfinite_def split: prod.splits option.splits)

lemma foldl_rolling_update:
  "foldl rolling_update acc rs =
     (foldl fadd (fst acc) (map weight_of (filter qualifies rs)),
      foldl fadd (snd acc) (map weighted_value_of (filter qualifies rs)))"
  by (induction rs arbitrary: acc) (simp_all add: rolling_update_qualifies)

lemma qualifies_weight:
  "qualifies r \<Longrightarrow> valid_float (weight_of r) \<and> isfinite (weight_of r) \<and> gt_zero (weight_of r)"
  by (auto simp: qualifies_def weight_of_def weight_value_def included_def
      split: option.splits dest: py_float_valid)

lemma foldl_fadd_nonneg:
  "nonneg_float a \<Longrightarrow> \<forall>w \<in> set ws. valid_float w \<and> isfinite w \<and> gt_zero w \<Longrightarrow>
   nonneg_float (foldl fadd a ws) \<and> (gt_zero (foldl fadd a ws) \<longleftrightarrow> gt_zero a \<or> ws \<noteq> [])"
proof (induction ws arbitrary: a)
  case Nil
  then show ?case by simp
next
  case (Cons w ws)
  from Cons.prems have w: "valid_float w" "isfinite w" "gt_zero w" by simp_all
  from fadd_pos [OF Cons.prems(1) w] have f: "nonneg_float (fadd a w)" "gt_zero (fadd a w)"
    by simp_all
  from Cons.IH [OF f(1)] Cons.prems(2) f(2) show ?case by simp
qed

lemma running_weight_nonneg:
  "nonneg_float (running_weight rs) \<and> (gt_zero (running_weight rs) \<longleftrightarrow> (\<exists>r \<in> set rs. qualifies r))"
proof -
  have z: "nonneg_float float_zero" "\<not> gt_zero float_zero"
    by (simp_all add: nonneg_float_def float_zero_def gt_zero_def)
  have "\<forall>w \<in> set (map weight_of (filter qualifies rs)). valid_float w \<and> isfinite w \<and> gt_zero w"
    by (auto dest: qualifies_weight)
  from foldl_fadd_nonneg [OF z(1) this] z(2) show ?thesis
    by (auto simp: running_weight_def filter_empty_conv)
qed

lemma nonneg_zero_iff: "nonneg_float x \<Longrightarrow> is_zero x \<longleftrightarrow> \<not> gt_zero x"
  by (cases x) (auto simp: nonneg_float_def is_zero_def gt_zero_def)

lemma fdiv_ok: "gt_zero y \<Longrightarrow> \<exists>q. fdiv x y = Inr q"
  by (cases y; cases x) (auto simp: fdiv_def gt_zero_def)

lemma sums_eq:
  "foldl rolling_update (float_zero, float_zero) rs = (running_weight rs, running_weighted_value rs)"
  by (simp add: foldl_rolling_update running_weight_def running_weighted_value_def)

section \<open>Properties of the pipeline\<close>

lemma foldl_setdefault:
  "foldl (\<lambda>r k. setdefault r k v) r ks k0 =
     (case r k0 of Some c \<Rightarrow> Some c | None \<Rightarrow> if k0 \<in> set ks then Some v else None)"
proof (induction ks arbitrary: r)
  case Nil
  then show ?case by (simp split: option.splits)
next
  case (Cons k ks)
  have "foldl (\<lambda>r k. setdefault r k v) r (k # ks) k0 =
      (case setdefault r k v k0 of Some c \<Rightarrow> Some c
       | None \<Rightarrow> if k0 \<in> set ks then Some v else None)"
    by (simp only: foldl_Cons Cons.IH)
  also have "\<dots> = (case r k0 of Some c \<Rightarrow> Some c
       | None \<Rightarrow> if k0 \<in> set (k # ks) then Some v else None)"
    by (auto simp: setdefault_def dom_def split: option.splits)
  finally show ?case .
qed

lemma process_row_lookup:
  "process_row pf fn r k =
     (if k = ''Pollster'' \<and> ''Pollster'' \<in> dom r
        then Some (Str (extract_pollster (get r ''Pollster'')))
      else if k = ''Sponsor'' then Some (Str (extract_sponsor (get r ''Pollster'')))
      else if k = ''Dates'' \<and> ''Dates'' \<in> dom r then Some (extract_date pf (get r ''Dates''))
      else (case r k of Some c \<Rightarrow> Some c | None \<Rightarrow> if k \<in> set fn then Some (Str []) else None))"
  by (auto simp: process_row_def Let_def foldl_setdefault dom_def split: option.splits)

lemma weight_value_process_row [simp]:
  "weight_value (process_row pf fn r) = weight_value r"
proof -
  have "get_default (process_row pf fn r) ''Influence'' (Str []) = get_default r ''Influence'' (Str [])"
    by (simp add: get_default_def process_row_lookup split: option.splits)
  moreover
  have "get_default (process_row pf fn r) ''Approve'' (Str []) = get_default r ''Approve'' (Str [])"
    by (simp add: get_default_def process_row_lookup split: option.splits)
  ultimately show ?thesis by (simp add: weight_value_def cong: option.case_cong)
qed

lemma qualifies_process_row [simp]: "qualifies (process_row pf fn r) = qualifies r"
  by (simp add: qualifies_def)

lemma weight_value_annotate [simp]:
  "weight_value (r(''RollingWeightedApprove'' \<mapsto> c)) = weight_value r"
  by (simp add: weight_value_def get_default_def cong: option.case_cong)

lemma qualifies_annotate [simp]: "qualifies (r(''RollingWeightedApprove'' \<mapsto> c)) = qualifies r"
  by (simp add: qualifies_def)

lemma weight_of_annotate [simp]: "weight_of (r(''RollingWeightedApprove'' \<mapsto> c)) = weight_of r"
  by (simp add: weight_of_def)

lemma weighted_value_of_annotate [simp]:
  "weighted_value_of (r(''RollingWeightedApprove'' \<mapsto> c)) = weighted_value_of r"
  by (simp add: weighted_value_of_def)

lemma insort_key_map:
  "insort_key k (f x) (map f ys) = map f (insort_key (\<lambda>y. k (f y)) x ys)"
  by (induction ys) simp_all

lemma sort_key_map: "sort_key k (map f xs) = map f (sort_key (\<lambda>y. k (f y)) xs)"
  by (induction xs) (simp_all add: insort_key_map)

lemma sort_reverse_map: "sort_reverse k (map f xs) = map f (sort_reverse (\<lambda>y. k (f y)) xs)"
  by (simp add: sort_reverse_def rev_map sort_key_map)

lemma enriched_input_order:
  "enriched pf header rows = map (process_row pf (compute_fieldnames header)) (input_order pf header rows)"
  by (simp add: enriched_def input_order_def sort_reverse_map)

lemma mset_sort_reverse [simp]: "mset (sort_reverse k xs) = mset xs"
  by (simp add: sort_reverse_def)

lemma length_sort_reverse [simp]: "length (sort_reverse k xs) = length xs"
  by (simp add: sort_reverse_def)

lemma set_sort_reverse [simp]: "set (sort_reverse k xs) = set xs"
  by (simp add: sort_reverse_def)

lemma length_enriched [simp]: "length (enriched pf header rows) = length rows"
  by (simp add: enriched_def)

lemma rolling_text_sums:
  "rolling_text (running_weight rs, running_weighted_value rs) =
     (if \<exists>r \<in> set rs. qualifies r
      then (case fdiv (running_weighted_value rs) (running_weight rs) of
              Inl e \<Rightarrow> Inl e | Inr q \<Rightarrow> Inr (format_5f q))
      else Inr [])"
  using running_weight_nonneg [of rs] by (simp add: rolling_text_def)

lemma running_quotient:
  "\<exists>r \<in> set rs. qualifies r \<Longrightarrow> \<exists>q. fdiv (running_weighted_value rs) (running_weight rs) = Inr q"
  using running_weight_nonneg [of rs] by (auto intro: fdiv_ok)

lemma rolling_text_value:
  "rolling_text (running_weight rs, running_weighted_value rs) = Inr (rolling_value rs)"
proof -
  from running_weight_nonneg [of rs] have nn: "nonneg_float (running_weight rs)" by simp
  show ?thesis
  proof (cases "gt_zero (running_weight rs)")
    case True
    from fdiv_ok [OF True] obtain q
      where "fdiv (running_weighted_value rs) (running_weight rs) = Inr q" ..
    with True nn show ?thesis
      by (simp add: rolling_text_def rolling_value_def nonneg_zero_iff)
  next
    case False
    with nn show ?thesis
      by (simp add: rolling_text_def rolling_value_def nonneg_zero_iff)
  qed
qed

lemma foldl_append_sums:
  "foldl rolling_update (running_weight pre, running_weighted_value pre) rs
     = (running_weight (pre @ rs), running_weighted_value (pre @ rs))"
  by (simp add: sums_eq [symmetric])

lemma rolling_general:
  "rolling (running_weight pre, running_weighted_value pre) rs = Inr (annotate_from pre rs)"
proof (induction rs arbitrary: pre)
  case Nil
  then show ?case by simp
next
  case (Cons r rs)
  have step: "rolling_update (running_weight pre, running_weighted_value pre) r
      = (running_weight (pre @ [r]), running_weighted_value (pre @ [r]))"
    using foldl_append_sums [of pre "[r]"] by simp
  show ?case
    by (simp add: step rolling_text_value Cons.IH [of "pre @ [r]"] Let_def)
qed

lemma rolling_from_zero: "rolling (float_zero, float_zero) rs = Inr (annotate_from [] rs)"
proof -
  have z: "(float_zero, float_zero) = (running_weight [], running_weighted_value [])"
    by (simp add: running_weight_def running_weighted_value_def)
  show ?thesis unfolding z by (rule rolling_general)
qed

lemma length_annotate_from [simp]: "length (annotate_from pre rs) = length rs"
  by (induction rs arbitrary: pre) simp_all

lemma nth_annotate_from:
  "i < length rs \<Longrightarrow>
   annotate_from pre rs ! i
     = (rs ! i)(''RollingWeightedApprove'' \<mapsto> Str (rolling_value (pre @ take (Suc i) rs)))"
proof (induction rs arbitrary: pre i)
  case Nil
  then show ?case by simp
next
  case (Cons r rs)
  show ?case
  proof (cases i)
    case 0
    then show ?thesis by simp
  next
    case (Suc j)
    with Cons.prems have "j < length rs" by simp
    from Cons.IH [OF this, of "pre @ [r]"] Suc show ?thesis by simp
  qed
qed

lemma weighted_approve_of_sums:
  "weighted_approve_of (running_weight rs, running_weighted_value rs) =
     (if \<exists>r \<in> set rs. qualifies r
      then (case fdiv (running_weighted_value rs) (running_weight rs) of
              Inl e \<Rightarrow> Inl e | Inr q \<Rightarrow> Inr (Some q))
      else Inr None)"
  using running_weight_nonneg [of rs] by (simp add: weighted_approve_of_def)

lemma foldl_global_step: "foldl global_step acc rs = foldl rolling_update acc rs"
  by (induction rs arbitrary: acc) (simp_all add: global_step_eq)

lemma main_structure:
  "main pf header rows =
     (let fn = compute_fieldnames header; srt = enriched pf header rows; recs = annotate_from [] srt
      in Inr (Written fn recs (map (write_row fn) recs)
           (report_line (if \<exists>r \<in> set rows. qualifies r
                         then (case fdiv (running_weighted_value srt) (running_weight srt) of
                                 Inl e \<Rightarrow> None | Inr q \<Rightarrow> Some q)
                         else None))))"
proof -
  let ?srt = "enriched pf header rows"
  have q: "(\<exists>r \<in> set ?srt. qualifies r) \<longleftrightarrow> (\<exists>r \<in> set rows. qualifies r)"
    by (auto simp: enriched_def)
  show ?thesis
  proof (cases "\<exists>r \<in> set rows. qualifies r")
    case True
    with q have "\<exists>r \<in> set ?srt. qualifies r" by simp
    from running_quotient [OF this] obtain qq
      where "fdiv (running_weighted_value ?srt) (running_weight ?srt) = Inr qq" ..
    with True q show ?thesis
      by (simp add: main_def Let_def enriched_def [symmetric] foldl_global_step sums_eq
          weighted_approve_of_sums rolling_from_zero)
  next
    case False
    with q show ?thesis
      by (simp add: main_def Let_def enriched_def [symmetric] foldl_global_step sums_eq
          weighted_approve_of_sums rolling_from_zero)
  qed
qed

lemma weight_of_process_row [simp]: "weight_of (process_row pf fn r) = weight_of r"
  by (simp add: weight_of_def)

lemma weighted_value_of_process_row [simp]:
  "weighted_value_of (process_row pf fn r) = weighted_value_of r"
  by (simp add: weighted_value_of_def)

lemma running_weight_map_process [simp]:
  "running_weight (map (process_row pf fn) rs) = running_weight rs"
  by (simp add: running_weight_def filter_map comp_def)

lemma running_weighted_value_map_process [simp]:
  "running_weighted_value (map (process_row pf fn) rs) = running_weighted_value rs"
  by (simp add: running_weighted_value_def filter_map comp_def)

lemma rolling_value_map_process [simp]:
  "rolling_value (map (process_row pf fn) rs) = rolling_value rs"
  by (simp add: rolling_value_def)

lemma insort_key_agree:
  "f x = g x \<Longrightarrow> (\<And>y. y \<in> set ys \<Longrightarrow> f y = g y) \<Longrightarrow> insort_key f x ys = insort_key g x ys"
  by (induction ys) simp_all

lemma sort_key_agree:
  "(\<And>x. x \<in> set xs \<Longrightarrow> f x = g x) \<Longrightarrow> sort_key f xs = sort_key g xs"
proof (induction xs)
  case Nil
  then show ?case by simp
next
  case (Cons x xs)
  then have ih: "sort_key f xs = sort_key g xs" by simp
  have "insort_key f x (sort_key g xs) = insort_key g x (sort_key g xs)"
    using Cons.prems by (intro insort_key_agree) simp_all
  with ih show ?case by simp
qed

lemma sort_reverse_const: "(\<And>x. x \<in> set xs \<Longrightarrow> k x = c) \<Longrightarrow> sort_reverse k xs = xs"
proof -
  assume a: "\<And>x. x \<in> set xs \<Longrightarrow> k x = c"
  have "sort_key k (rev xs) = sort_key (\<lambda>x. c) (rev xs)"
    using a by (intro sort_key_agree) simp
  then show ?thesis by (simp add: sort_reverse_def sort_key_const)
qed

lemma py_int_no_digits: "\<not> digitpart (snd (split_sign (num_strip s))) \<Longrightarrow> py_int pf s = None"
  by (simp add: py_int_def split_def)

lemma row_key_no_dates: "''Dates'' \<notin> dom r \<Longrightarrow> row_key pf (process_row pf fn r) = date_min"
proof -
  assume a: "''Dates'' \<notin> dom r"
  have n1: "py_int pf ''None'' = None"
    by (rule py_int_no_digits) (simp add: split_sign_def num_strip_def is_num_space_def is_digit_def)
  have n2: "py_int pf [] = None"
    by (rule py_int_no_digits) (simp add: split_sign_def num_strip_def)
  from a have "get (process_row pf fn r) ''Dates'' = PyNone \<or> get (process_row pf fn r) ''Dates'' = Str []"
    by (auto simp: get_def process_row_lookup dom_def split: option.splits)
  then show ?thesis
    by (auto simp: row_key_def to_date_or_min_def parse_date_def py_str_def n1 n2)
qed

lemma main_result:
  "\<exists>res. main pf header rows = Inr res
     \<and> out_header res = compute_fieldnames header
     \<and> out_records res = annotate_from [] (enriched pf header rows)
     \<and> out_rows res = map (write_row (out_header res)) (out_records res)
     \<and> out_line res = report_line
          (if \<exists>r \<in> set rows. qualifies r
           then (case fdiv (running_weighted_value (input_order pf header rows))
                           (running_weight (input_order pf header rows)) of
                   Inl e \<Rightarrow> None | Inr q \<Rightarrow> Some q)
           else None)"
  by (simp add: main_structure Let_def enriched_input_order)

lemma mset_input_order [simp]: "mset (input_order pf header rows) = mset rows"
  by (simp add: input_order_def)

lemma length_input_order [simp]: "length (input_order pf header rows) = length rows"
  by (simp add: input_order_def)

lemma set_input_order [simp]: "set (input_order pf header rows) = set rows"
  by (simp add: input_order_def)

lemma out_record_nth:
  assumes "i < length rows"
  shows "annotate_from [] (enriched pf header rows) ! i =
     (process_row pf (compute_fieldnames header) (input_order pf header rows ! i))
       (''RollingWeightedApprove'' \<mapsto> Str (rolling_value (take (Suc i) (input_order pf header rows))))"
proof -
  let ?fn = "compute_fieldnames header"
  let ?io = "input_order pf header rows"
  have i: "i < length (enriched pf header rows)" using assms by simp
  have t: "take (Suc i) (map (process_row pf ?fn) ?io) = map (process_row pf ?fn) (take (Suc i) ?io)"
    by (simp add: take_map)
  from nth_annotate_from [OF i, of "[]"] show ?thesis
    using assms by (simp add: enriched_input_order t del: take_Suc_Cons)
qed

text \<open>
  Claim C8: for every input with \<open>n \<ge> 0\<close> data rows the run ends with the output written
  and the output holds exactly \<open>n\<close> data rows, one per input row: the written rows are the
  records rendered in the output schema, and the \<open>i\<close>-th record is the enriched \<open>i\<close>-th row
  of a rearrangement of the input rows (the same rows, each as often as in the input), with
  its rolling value added.
\<close>

theorem main_row_count:
  "\<exists>res. main pf header rows = Inr res
     \<and> length (out_rows res) = length rows
     \<and> out_rows res = map (write_row (out_header res)) (out_records res)
     \<and> length (out_records res) = length rows
     \<and> (\<forall>i < length rows. \<exists>t. out_records res ! i =
           (process_row pf (compute_fieldnames header) (input_order pf header rows ! i))
             (''RollingWeightedApprove'' \<mapsto> Str t))
     \<and> mset (input_order pf header rows) = mset rows"
proof -
  from main_result [of pf header rows] obtain res where
    r: "main pf header rows = Inr res"
       "out_records res = annotate_from [] (enriched pf header rows)"
       "out_rows res = map (write_row (out_header res)) (out_records res)"
    by blast
  have "\<forall>i < length rows. \<exists>t. out_records res ! i =
           (process_row pf (compute_fieldnames header) (input_order pf header rows ! i))
             (''RollingWeightedApprove'' \<mapsto> Str t)"
    using out_record_nth [of _ rows pf header] by (auto simp: r(2))
  with r show ?thesis by simp
qed

text \<open>
  Claim C9: whenever at least one row qualifies for the aggregate, the global weighted
  average is defined, the line on standard output reports it in the five-decimal format,
  and the \<open>RollingWeightedApprove\<close> value of the last row in sorted order is that same text.
\<close>

theorem last_rolling_is_global:
  assumes "\<exists>r \<in> set rows. qualifies r"
  shows "\<exists>res wa. main pf header rows = Inr res
     \<and> fdiv (running_weighted_value (input_order pf header rows))
             (running_weight (input_order pf header rows)) = Inr wa
     \<and> out_line res = ''Weighted Approve (by Influence): '' @ format_5f wa
     \<and> get (last (out_records res)) ''RollingWeightedApprove'' = Str (format_5f wa)"
proof -
  let ?io = "input_order pf header rows"
  from assms have q: "\<exists>r \<in> set ?io. qualifies r" by simp
  from running_quotient [OF q] obtain wa where
    wa: "fdiv (running_weighted_value ?io) (running_weight ?io) = Inr wa" ..
  from main_result [of pf header rows] obtain res where
    r: "main pf header rows = Inr res"
       "out_records res = annotate_from [] (enriched pf header rows)"
       "out_line res = report_line
          (if \<exists>r \<in> set rows. qualifies r
           then (case fdiv (running_weighted_value ?io) (running_weight ?io) of
                   Inl e \<Rightarrow> None | Inr q \<Rightarrow> Some q)
           else None)"
    by blast
  from assms have ne: "rows \<noteq> []" by auto
  then have l: "length rows - 1 < length rows" by (cases rows) simp_all
  have nz: "annotate_from [] (enriched pf header rows) \<noteq> []"
    using ne by (metis length_0_conv length_annotate_from length_enriched)
  have "last (out_records res) = out_records res ! (length rows - 1)"
    unfolding r(2) using last_conv_nth [OF nz] by simp
  also have "\<dots> = (process_row pf (compute_fieldnames header) (?io ! (length rows - 1)))
       (''RollingWeightedApprove'' \<mapsto> Str (rolling_value (take (Suc (length rows - 1)) ?io)))"
    unfolding r(2) by (rule out_record_nth [OF l])
  also have "take (Suc (length rows - 1)) ?io = ?io" using ne by simp
  finally have lst: "get (last (out_records res)) ''RollingWeightedApprove'' = Str (rolling_value ?io)"
    by (simp add: get_def)
  from running_weight_nonneg [of ?io] q have "\<not> is_zero (running_weight ?io)"
    by (simp add: nonneg_zero_iff)
  then have rv: "rolling_value ?io = format_5f wa" by (simp add: rolling_value_def wa)
  from r(3) assms wa have "out_line res = ''Weighted Approve (by Influence): '' @ format_5f wa"
    by (simp add: report_line_def)
  with r(1) wa lst rv show ?thesis by auto
qed

section \<open>Evaluation of the arithmetic on concrete rows\<close>

lemma nat_digits_numeral [simp]:
  "nat_digits (numeral k) =
     (if (numeral k :: nat) < 10 then [digit_char (numeral k)]
      else nat_digits (numeral k div 10) @ [digit_char (numeral k mod 10)])"
  by (rule nat_digits.simps)

lemma nat_digits_0 [simp]: "nat_digits 0 = ''0''"
  by (simp add: nat_digits.simps digit_char_def)

lemma nat_digits_1 [simp]: "nat_digits (Suc 0) = ''1''"
  by (simp add: nat_digits.simps digit_char_def)

lemma bit_length_numeral [simp]:
  "bit_length (numeral k) = Suc (bit_length (numeral k div 2))"
  by (subst bit_length.simps) simp

lemma bit_length_0 [simp]: "bit_length 0 = 0"
  by (simp add: bit_length.simps)

lemma bit_length_1 [simp]: "bit_length (Suc 0) = 1"
  by (simp add: bit_length.simps)

declare fadd.simps [simp del] fmul.simps [simp del]

lemma rr_eval_1: "round_ratio False 2 (Suc 0) = Finite False 4503599627370496 (- 51)"
proof -
  have fl: "floor_log2 2 (Suc 0) = 1"
    by (simp add: floor_log2_def Let_def)
  have rh: "round_half_even 4503599627370496 (Suc 0) = 4503599627370496"
    by (simp add: round_half_even_def Let_def)
  show ?thesis
    by (simp add: round_ratio_def fl rh)
qed

lemma parse_2: "float_of_string ''2'' = Some (Finite False 4503599627370496 (- 51))"
  by (simp add: float_of_string_def split_sign_def num_strip_def is_num_space_def ascii_lower_def
      is_exp_char_def digits_of_def digits_value_def digit_val_def is_digit_def signed_def rr_eval_1)

lemma rr_eval_2: "round_ratio False 50 (Suc 0) = Finite False 7036874417766400 (- 47)"
proof -
  have fl: "floor_log2 50 (Suc 0) = 5"
    by (simp add: floor_log2_def Let_def)
  have rh: "round_half_even 7036874417766400 (Suc 0) = 7036874417766400"
    by (simp add: round_half_even_def Let_def)
  show ?thesis
    by (simp add: round_ratio_def fl rh)
qed

lemma parse_50: "float_of_string ''50'' = Some (Finite False 7036874417766400 (- 47))"
  by (simp add: float_of_string_def split_sign_def num_strip_def is_num_space_def ascii_lower_def
      is_exp_char_def digits_of_def digits_value_def digit_val_def is_digit_def signed_def rr_eval_2)

lemma rr_eval_3: "round_ratio False 31691265005705735037417580134400 316912650057057350374175801344 = Finite False 7036874417766400 (- 46)"
proof -
  have fl: "floor_log2 31691265005705735037417580134400 316912650057057350374175801344 = 6"
    by (simp add: floor_log2_def Let_def)
  have rh: "round_half_even 2230074519853062314153571827264836150598041600 316912650057057350374175801344 = 7036874417766400"
    by (simp add: round_half_even_def Let_def)
  show ?thesis
    by (simp add: round_ratio_def fl rh)
qed

lemma fmul_eval_1:
  "fmul (Finite False 4503599627370496 (- 51)) (Finite False 7036874417766400 (- 47)) = Finite False 7036874417766400 (- 46)"
  by (simp add: fmul.simps rr_eval_3)

lemma row1_weight_value:
  "weight_value [''Influence'' \<mapsto> Str ''2'', ''Approve'' \<mapsto> Str ''50'']
     = Some (Finite False 4503599627370496 (- 51), Finite False 7036874417766400 (- 47))"
  by (simp add: weight_value_def get_default_def py_float_def parse_2 parse_50)

lemma row1_qualifies:
  "qualifies [''Influence'' \<mapsto> Str ''2'', ''Approve'' \<mapsto> Str ''50'']"
  by (simp add: qualifies_def row1_weight_value included_def isfinite_def gt_zero_def)

lemma row1_weight_of:
  "weight_of [''Influence'' \<mapsto> Str ''2'', ''Approve'' \<mapsto> Str ''50'']
     = Finite False 4503599627370496 (- 51)"
  by (simp add: weight_of_def row1_weight_value)

lemma row1_weighted_value_of:
  "weighted_value_of [''Influence'' \<mapsto> Str ''2'', ''Approve'' \<mapsto> Str ''50'']
     = Finite False 7036874417766400 (- 46)"
  by (simp add: weighted_value_of_def row1_weight_value fmul_eval_1)

lemma rr_eval_4: "round_ratio False 4503599627370496 2251799813685248 = Finite False 4503599627370496 (- 51)"
proof -
  have fl: "floor_log2 4503599627370496 2251799813685248 = 1"
    by (simp add: floor_log2_def Let_def)
  have rh: "round_half_even 10141204801825835211973625643008 2251799813685248 = 4503599627370496"
    by (simp add: round_half_even_def Let_def)
  show ?thesis
    by (simp add: round_ratio_def fl rh)
qed

lemma fadd_eval_2:
  "fadd (Finite False 0 (0)) (Finite False 4503599627370496 (- 51)) = Finite False 4503599627370496 (- 51)"
  by (simp add: fadd.simps signed_def rr_eval_4)

lemma rr_eval_5: "round_ratio False 7036874417766400 70368744177664 = Finite False 7036874417766400 (- 46)"
proof -
  have fl: "floor_log2 7036874417766400 70368744177664 = 6"
    by (simp add: floor_log2_def Let_def)
  have rh: "round_half_even 495176015714152109959649689600 70368744177664 = 7036874417766400"
    by (simp add: round_half_even_def Let_def)
  show ?thesis
    by (simp add: round_ratio_def fl rh)
qed

lemma fadd_eval_3:
  "fadd (Finite False 0 (0)) (Finite False 7036874417766400 (- 46)) = Finite False 7036874417766400 (- 46)"
  by (simp add: fadd.simps signed_def rr_eval_5)






lemma rr_eval_7: "round_ratio False 3 (Suc 0) = Finite False 6755399441055744 (- 51)"
proof -
  have fl: "floor_log2 3 (Suc 0) = 1"
    by (simp add: floor_log2_def Let_def)
  have rh: "round_half_even 6755399441055744 (Suc 0) = 6755399441055744"
    by (simp add: round_half_even_def Let_def)
  show ?thesis
    by (simp add: round_ratio_def fl rh)
qed

lemma parse_3: "float_of_string ''3'' = Some (Finite False 6755399441055744 (- 51))"
  by (simp add: float_of_string_def split_sign_def num_strip_def is_num_space_def ascii_lower_def
      is_exp_char_def digits_of_def digits_value_def digit_val_def is_digit_def signed_def rr_eval_7)

lemma rr_eval_8: "round_ratio False 60 (Suc 0) = Finite False 8444249301319680 (- 47)"
proof -
  have fl: "floor_log2 60 (Suc 0) = 5"
    by (simp add: floor_log2_def Let_def)
  have rh: "round_half_even 8444249301319680 (Suc 0) = 8444249301319680"
    by (simp add: round_half_even_def Let_def)
  show ?thesis
    by (simp add: round_ratio_def fl rh)
qed

lemma parse_60: "float_of_string ''60'' = Some (Finite False 8444249301319680 (- 47))"
  by (simp add: float_of_string_def split_sign_def num_strip_def is_num_space_def ascii_lower_def
      is_exp_char_def digits_of_def digits_value_def digit_val_def is_digit_def signed_def rr_eval_8)

lemma rr_eval_9: "round_ratio False 57044277010270323067351644241920 316912650057057350374175801344 = Finite False 6333186975989760 (- 45)"
proof -
  have fl: "floor_log2 57044277010270323067351644241920 316912650057057350374175801344 = 7"
    by (simp add: floor_log2_def Let_def)
  have rh: "round_half_even 2007067067867756082738214644538352535538237440 316912650057057350374175801344 = 6333186975989760"
    by (simp add: round_half_even_def Let_def)
  show ?thesis
    by (simp add: round_ratio_def fl rh)
qed

lemma fmul_eval_6:
  "fmul (Finite False 6755399441055744 (- 51)) (Finite False 8444249301319680 (- 47)) = Finite False 6333186975989760 (- 45)"
  by (simp add: fmul.simps rr_eval_9)

lemma row2_weight_value:
  "weight_value [''Influence'' \<mapsto> Str ''3'', ''Approve'' \<mapsto> Str ''60'']
     = Some (Finite False 6755399441055744 (- 51), Finite False 8444249301319680 (- 47))"
  by (simp add: weight_value_def get_default_def py_float_def parse_3 parse_60)

lemma row2_qualifies:
  "qualifies [''Influence'' \<mapsto> Str ''3'', ''Approve'' \<mapsto> Str ''60'']"
  by (simp add: qualifies_def row2_weight_value included_def isfinite_def gt_zero_def)

lemma row2_weight_of:
  "weight_of [''Influence'' \<mapsto> Str ''3'', ''Approve'' \<mapsto> Str ''60'']
     = Finite False 6755399441055744 (- 51)"
  by (simp add: weight_of_def row2_weight_value)

lemma row2_weighted_value_of:
  "weighted_value_of [''Influence'' \<mapsto> Str ''3'', ''Approve'' \<mapsto> Str ''60'']
     = Finite False 6333186975989760 (- 45)"
  by (simp add: weighted_value_of_def row2_weight_value fmul_eval_6)

lemma rr_eval_10: "round_ratio False 11258999068426240 2251799813685248 = Finite False 5629499534213120 (- 50)"
proof -
  have fl: "floor_log2 11258999068426240 2251799813685248 = 2"
    by (simp add: floor_log2_def Let_def)
  have rh: "round_half_even 12676506002282294014967032053760 2251799813685248 = 5629499534213120"
    by (simp add: round_half_even_def Let_def)
  show ?thesis
    by (simp add: round_ratio_def fl rh)
qed

lemma fadd_eval_7:
  "fadd (Finite False 4503599627370496 (- 51)) (Finite False 6755399441055744 (- 51)) = Finite False 5629499534213120 (- 50)"
  by (simp add: fadd.simps signed_def rr_eval_10)

lemma rr_eval_11: "round_ratio False 19703248369745920 70368744177664 = Finite False 4925812092436480 (- 44)"
proof -
  have fl: "floor_log2 19703248369745920 70368744177664 = 8"
    by (simp add: floor_log2_def Let_def)
  have rh: "round_half_even 346623210999906476971754782720 70368744177664 = 4925812092436480"
    by (simp add: round_half_even_def Let_def)
  show ?thesis
    by (simp add: round_ratio_def fl rh)
qed

lemma fadd_eval_8:
  "fadd (Finite False 7036874417766400 (- 46)) (Finite False 6333186975989760 (- 45)) = Finite False 4925812092436480 (- 44)"
  by (simp add: fadd.simps signed_def rr_eval_11)






lemma bad_row_weight_value:
  "weight_value [''Influence'' \<mapsto> Str ''n/a'', ''Approve'' \<mapsto> Str ''55''] = None"
  by (simp add: weight_value_def get_default_def py_float_def float_of_string_def split_sign_def
      num_strip_def is_num_space_def ascii_lower_def is_exp_char_def is_digit_def)

lemma bad_row_qualifies:
  "\<not> qualifies [''Influence'' \<mapsto> Str ''n/a'', ''Approve'' \<mapsto> Str ''55'']"
  by (simp add: qualifies_def bad_row_weight_value)



lemma rr_eval_13: "round_ratio False (Suc 0) (Suc 0) = Finite False 4503599627370496 (- 52)"
proof -
  have fl: "floor_log2 (Suc 0) (Suc 0) = 0"
    by (simp add: floor_log2_def Let_def)
  have rh: "round_half_even 4503599627370496 (Suc 0) = 4503599627370496"
    by (simp add: round_half_even_def Let_def)
  show ?thesis
    by (simp add: round_ratio_def fl rh)
qed

lemma parse_1: "float_of_string ''1'' = Some (Finite False 4503599627370496 (- 52))"
  by (simp add: float_of_string_def split_sign_def num_strip_def is_num_space_def ascii_lower_def
      is_exp_char_def digits_of_def digits_value_def digit_val_def is_digit_def signed_def rr_eval_13)

lemma rr_eval_14: "round_ratio False 40 (Suc 0) = Finite False 5629499534213120 (- 47)"
proof -
  have fl: "floor_log2 40 (Suc 0) = 5"
    by (simp add: floor_log2_def Let_def)
  have rh: "round_half_even 5629499534213120 (Suc 0) = 5629499534213120"
    by (simp add: round_half_even_def Let_def)
  show ?thesis
    by (simp add: round_ratio_def fl rh)
qed

lemma parse_40: "float_of_string ''40'' = Some (Finite False 5629499534213120 (- 47))"
  by (simp add: float_of_string_def split_sign_def num_strip_def is_num_space_def ascii_lower_def
      is_exp_char_def digits_of_def digits_value_def digit_val_def is_digit_def signed_def rr_eval_14)

lemma rr_eval_15: "round_ratio False 25353012004564588029934064107520 633825300114114700748351602688 = Finite False 5629499534213120 (- 47)"
proof -
  have fl: "floor_log2 25353012004564588029934064107520 633825300114114700748351602688 = 5"
    by (simp add: floor_log2_def Let_def)
  have rh: "round_half_even 3568119231764899702645714923623737840956866560 633825300114114700748351602688 = 5629499534213120"
    by (simp add: round_half_even_def Let_def)
  show ?thesis
    by (simp add: round_ratio_def fl rh)
qed

lemma fmul_eval_11:
  "fmul (Finite False 4503599627370496 (- 52)) (Finite False 5629499534213120 (- 47)) = Finite False 5629499534213120 (- 47)"
  by (simp add: fmul.simps rr_eval_15)

lemma row4_weight_value:
  "weight_value [''Influence'' \<mapsto> Str ''1'', ''Approve'' \<mapsto> Str ''40'']
     = Some (Finite False 4503599627370496 (- 52), Finite False 5629499534213120 (- 47))"
  by (simp add: weight_value_def get_default_def py_float_def parse_1 parse_40)

lemma row4_qualifies:
  "qualifies [''Influence'' \<mapsto> Str ''1'', ''Approve'' \<mapsto> Str ''40'']"
  by (simp add: qualifies_def row4_weight_value included_def isfinite_def gt_zero_def)

lemma row4_weight_of:
  "weight_of [''Influence'' \<mapsto> Str ''1'', ''Approve'' \<mapsto> Str ''40'']
     = Finite False 4503599627370496 (- 52)"
  by (simp add: weight_of_def row4_weight_value)

lemma row4_weighted_value_of:
  "weighted_value_of [''Influence'' \<mapsto> Str ''1'', ''Approve'' \<mapsto> Str ''40'']
     = Finite False 5629499534213120 (- 47)"
  by (simp add: weighted_value_of_def row4_weight_value fmul_eval_11)

lemma rr_eval_16: "round_ratio False 27021597764222976 4503599627370496 = Finite False 6755399441055744 (- 50)"
proof -
  have fl: "floor_log2 27021597764222976 4503599627370496 = 2"
    by (simp add: floor_log2_def Let_def)
  have rh: "round_half_even 30423614405477505635920876929024 4503599627370496 = 6755399441055744"
    by (simp add: round_half_even_def Let_def)
  show ?thesis
    by (simp add: round_ratio_def fl rh)
qed

lemma fadd_eval_12:
  "fadd (Finite False 5629499534213120 (- 50)) (Finite False 4503599627370496 (- 52)) = Finite False 6755399441055744 (- 50)"
  by (simp add: fadd.simps signed_def rr_eval_16)

lemma rr_eval_17: "round_ratio False 45035996273704960 140737488355328 = Finite False 5629499534213120 (- 44)"
proof -
  have fl: "floor_log2 45035996273704960 140737488355328 = 8"
    by (simp add: floor_log2_def Let_def)
  have rh: "round_half_even 792281625142643375935439503360 140737488355328 = 5629499534213120"
    by (simp add: round_half_even_def Let_def)
  show ?thesis
    by (simp add: round_ratio_def fl rh)
qed

lemma fadd_eval_13:
  "fadd (Finite False 4925812092436480 (- 44)) (Finite False 5629499534213120 (- 47)) = Finite False 5629499534213120 (- 44)"
  by (simp add: fadd.simps signed_def rr_eval_17)

lemma rr_eval_18: "round_ratio False 360287970189639680 6755399441055744 = Finite False 7505999378950827 (- 47)"
proof -
  have fl: "floor_log2 360287970189639680 6755399441055744 = 5"
    by (simp add: floor_log2_def Let_def)
  have rh: "round_half_even 50706024009129176059868128215040 6755399441055744 = 7505999378950827"
    by (simp add: round_half_even_def Let_def)
  show ?thesis
    by (simp add: round_ratio_def fl rh)
qed

lemma fdiv_eval_14:
  "fdiv (Finite False 5629499534213120 (- 44)) (Finite False 6755399441055744 (- 50)) = Inr (Finite False 7505999378950827 (- 47))"
  by (simp add: fdiv_def rr_eval_18)

lemma format_eval_15:
  "format_5f (Finite False 7505999378950827 (- 47)) = ''53.33333''"
proof -
  have rh: "round_half_even 750599937895082700000 140737488355328 = 5333333"
    by (simp add: round_half_even_def Let_def)
  show ?thesis
    by (simp add: format_5f_def rh zero_pad_def digit_char_def)
qed

lemma ex_running_4:
  "running_weight
     [[''Influence'' \<mapsto> Str ''2'', ''Approve'' \<mapsto> Str ''50''],
      [''Influence'' \<mapsto> Str ''3'', ''Approve'' \<mapsto> Str ''60''],
      [''Influence'' \<mapsto> Str ''n/a'', ''Approve'' \<mapsto> Str ''55''],
      [''Influence'' \<mapsto> Str ''1'', ''Approve'' \<mapsto> Str ''40'']] = Finite False 6755399441055744 (- 50)"
  "running_weighted_value
     [[''Influence'' \<mapsto> Str ''2'', ''Approve'' \<mapsto> Str ''50''],
      [''Influence'' \<mapsto> Str ''3'', ''Approve'' \<mapsto> Str ''60''],
      [''Influence'' \<mapsto> Str ''n/a'', ''Approve'' \<mapsto> Str ''55''],
      [''Influence'' \<mapsto> Str ''1'', ''Approve'' \<mapsto> Str ''40'']] = Finite False 5629499534213120 (- 44)"
  by (simp_all add: running_weight_def running_weighted_value_def float_zero_def
      row1_qualifies row1_weight_of row1_weighted_value_of fadd_eval_2 fadd_eval_3 row2_qualifies row2_weight_of row2_weighted_value_of fadd_eval_7 fadd_eval_8 bad_row_qualifies row4_qualifies row4_weight_of row4_weighted_value_of fadd_eval_12 fadd_eval_13)

lemma ex_rolling_4:
  "rolling_value
     [[''Influence'' \<mapsto> Str ''2'', ''Approve'' \<mapsto> Str ''50''],
      [''Influence'' \<mapsto> Str ''3'', ''Approve'' \<mapsto> Str ''60''],
      [''Influence'' \<mapsto> Str ''n/a'', ''Approve'' \<mapsto> Str ''55''],
      [''Influence'' \<mapsto> Str ''1'', ''Approve'' \<mapsto> Str ''40'']] = ''53.33333''"
  by (simp add: rolling_value_def ex_running_4 is_zero_def fdiv_eval_14 format_eval_15)

lemma rr_eval_19: "round_ratio False (Suc 0) 10 = Finite False 7205759403792794 (- 56)"
proof -
  have fl: "floor_log2 (Suc 0) 10 = - 4"
    by (simp add: floor_log2_def Let_def)
  have rh: "round_half_even 72057594037927936 10 = 7205759403792794"
    by (simp add: round_half_even_def Let_def)
  show ?thesis
    by (simp add: round_ratio_def fl rh)
qed

lemma parse_0_1: "float_of_string ''0.1'' = Some (Finite False 7205759403792794 (- 56))"
  by (simp add: float_of_string_def split_sign_def num_strip_def is_num_space_def ascii_lower_def
      is_exp_char_def digits_of_def digits_value_def digit_val_def is_digit_def signed_def rr_eval_19)

lemma rr_eval_20: "round_ratio False 32451855365842674479755453005824 324518553658426726783156020576256 = Finite False 7205759403792794 (- 56)"
proof -
  have fl: "floor_log2 32451855365842674479755453005824 324518553658426726783156020576256 = - 4"
    by (simp add: floor_log2_def Let_def)
  have rh: "round_half_even 2338402619729444798933317195716743544711900299264 324518553658426726783156020576256 = 7205759403792794"
    by (simp add: round_half_even_def Let_def)
  show ?thesis
    by (simp add: round_ratio_def fl rh)
qed

lemma fmul_eval_16:
  "fmul (Finite False 4503599627370496 (- 52)) (Finite False 7205759403792794 (- 56)) = Finite False 7205759403792794 (- 56)"
  by (simp add: fmul.simps rr_eval_20)

lemma row5_weight_value:
  "weight_value [''Influence'' \<mapsto> Str ''1'', ''Approve'' \<mapsto> Str ''0.1'']
     = Some (Finite False 4503599627370496 (- 52), Finite False 7205759403792794 (- 56))"
  by (simp add: weight_value_def get_default_def py_float_def parse_1 parse_0_1)

lemma row5_qualifies:
  "qualifies [''Influence'' \<mapsto> Str ''1'', ''Approve'' \<mapsto> Str ''0.1'']"
  by (simp add: qualifies_def row5_weight_value included_def isfinite_def gt_zero_def)

lemma row5_weight_of:
  "weight_of [''Influence'' \<mapsto> Str ''1'', ''Approve'' \<mapsto> Str ''0.1'']
     = Finite False 4503599627370496 (- 52)"
  by (simp add: weight_of_def row5_weight_value)

lemma row5_weighted_value_of:
  "weighted_value_of [''Influence'' \<mapsto> Str ''1'', ''Approve'' \<mapsto> Str ''0.1'']
     = Finite False 7205759403792794 (- 56)"
  by (simp add: weighted_value_of_def row5_weight_value fmul_eval_16)

lemma rr_eval_21: "round_ratio False 4503599627370496 4503599627370496 = Finite False 4503599627370496 (- 52)"
proof -
  have fl: "floor_log2 4503599627370496 4503599627370496 = 0"
    by (simp add: floor_log2_def Let_def)
  have rh: "round_half_even 20282409603651670423947251286016 4503599627370496 = 4503599627370496"
    by (simp add: round_half_even_def Let_def)
  show ?thesis
    by (simp add: round_ratio_def fl rh)
qed

lemma fadd_eval_17:
  "fadd (Finite False 0 (0)) (Finite False 4503599627370496 (- 52)) = Finite False 4503599627370496 (- 52)"
  by (simp add: fadd.simps signed_def rr_eval_21)

lemma rr_eval_22: "round_ratio False 7205759403792794 72057594037927936 = Finite False 7205759403792794 (- 56)"
proof -
  have fl: "floor_log2 7205759403792794 72057594037927936 = - 4"
    by (simp add: floor_log2_def Let_def)
  have rh: "round_half_even 519229685853482791676087248093184 72057594037927936 = 7205759403792794"
    by (simp add: round_half_even_def Let_def)
  show ?thesis
    by (simp add: round_ratio_def fl rh)
qed

lemma fadd_eval_18:
  "fadd (Finite False 0 (0)) (Finite False 7205759403792794 (- 56)) = Finite False 7205759403792794 (- 56)"
  by (simp add: fadd.simps signed_def rr_eval_22)

lemma fdiv_eval_19:
  "fdiv (Finite False 7205759403792794 (- 56)) (Finite False 4503599627370496 (- 52)) = Inr (Finite False 7205759403792794 (- 56))"
  by (simp add: fdiv_def rr_eval_22)

lemma format_eval_20:
  "format_5f (Finite False 7205759403792794 (- 56)) = ''0.10000''"
proof -
  have rh: "round_half_even 720575940379279400000 72057594037927936 = 10000"
    by (simp add: round_half_even_def Let_def)
  show ?thesis
    by (simp add: format_5f_def rh zero_pad_def digit_char_def)
qed



lemma rr_eval_23: "round_ratio False 2 10 = Finite False 7205759403792794 (- 55)"
proof -
  have fl: "floor_log2 2 10 = - 3"
    by (simp add: floor_log2_def Let_def)
  have rh: "round_half_even 72057594037927936 10 = 7205759403792794"
    by (simp add: round_half_even_def Let_def)
  show ?thesis
    by (simp add: round_ratio_def fl rh)
qed

lemma parse_0_2: "float_of_string ''0.2'' = Some (Finite False 7205759403792794 (- 55))"
  by (simp add: float_of_string_def split_sign_def num_strip_def is_num_space_def ascii_lower_def
      is_exp_char_def digits_of_def digits_value_def digit_val_def is_digit_def signed_def rr_eval_23)

lemma rr_eval_24: "round_ratio False 32451855365842674479755453005824 162259276829213363391578010288128 = Finite False 7205759403792794 (- 55)"
proof -
  have fl: "floor_log2 32451855365842674479755453005824 162259276829213363391578010288128 = - 3"
    by (simp add: floor_log2_def Let_def)
  have rh: "round_half_even 1169201309864722399466658597858371772355950149632 162259276829213363391578010288128 = 7205759403792794"
    by (simp add: round_half_even_def Let_def)
  show ?thesis
    by (simp add: round_ratio_def fl rh)
qed

lemma fmul_eval_21:
  "fmul (Finite False 4503599627370496 (- 52)) (Finite False 7205759403792794 (- 55)) = Finite False 7205759403792794 (- 55)"
  by (simp add: fmul.simps rr_eval_24)

lemma row6_weight_value:
  "weight_value [''Influence'' \<mapsto> Str ''1'', ''Approve'' \<mapsto> Str ''0.2'']
     = Some (Finite False 4503599627370496 (- 52), Finite False 7205759403792794 (- 55))"
  by (simp add: weight_value_def get_default_def py_float_def parse_1 parse_0_2)

lemma row6_qualifies:
  "qualifies [''Influence'' \<mapsto> Str ''1'', ''Approve'' \<mapsto> Str ''0.2'']"
  by (simp add: qualifies_def row6_weight_value included_def isfinite_def gt_zero_def)

lemma row6_weight_of:
  "weight_of [''Influence'' \<mapsto> Str ''1'', ''Approve'' \<mapsto> Str ''0.2'']
     = Finite False 4503599627370496 (- 52)"
  by (simp add: weight_of_def row6_weight_value)

lemma row6_weighted_value_of:
  "weighted_value_of [''Influence'' \<mapsto> Str ''1'', ''Approve'' \<mapsto> Str ''0.2'']
     = Finite False 7205759403792794 (- 55)"
  by (simp add: weighted_value_of_def row6_weight_value fmul_eval_21)

lemma rr_eval_25: "round_ratio False 9007199254740992 4503599627370496 = Finite False 4503599627370496 (- 51)"
proof -
  have fl: "floor_log2 9007199254740992 4503599627370496 = 1"
    by (simp add: floor_log2_def Let_def)
  have rh: "round_half_even 20282409603651670423947251286016 4503599627370496 = 4503599627370496"
    by (simp add: round_half_even_def Let_def)
  show ?thesis
    by (simp add: round_ratio_def fl rh)
qed

lemma fadd_eval_22:
  "fadd (Finite False 4503599627370496 (- 52)) (Finite False 4503599627370496 (- 52)) = Finite False 4503599627370496 (- 51)"
  by (simp add: fadd.simps signed_def rr_eval_25)

lemma rr_eval_26: "round_ratio False 21617278211378382 72057594037927936 = Finite False 5404319552844596 (- 54)"
proof -
  have fl: "floor_log2 21617278211378382 72057594037927936 = - 2"
    by (simp add: floor_log2_def Let_def)
  have rh: "round_half_even 389422264390112093757065436069888 72057594037927936 = 5404319552844596"
    by (simp add: round_half_even_def Let_def)
  show ?thesis
    by (simp add: round_ratio_def fl rh)
qed

lemma fadd_eval_23:
  "fadd (Finite False 7205759403792794 (- 56)) (Finite False 7205759403792794 (- 55)) = Finite False 5404319552844596 (- 54)"
  by (simp add: fadd.simps signed_def rr_eval_26)

lemma rr_eval_27: "round_ratio False 5404319552844596 36028797018963968 = Finite False 5404319552844596 (- 55)"
proof -
  have fl: "floor_log2 5404319552844596 36028797018963968 = - 3"
    by (simp add: floor_log2_def Let_def)
  have rh: "round_half_even 194711132195056064892931227516928 36028797018963968 = 5404319552844596"
    by (simp add: round_half_even_def Let_def)
  show ?thesis
    by (simp add: round_ratio_def fl rh)
qed

lemma fdiv_eval_24:
  "fdiv (Finite False 5404319552844596 (- 54)) (Finite False 4503599627370496 (- 51)) = Inr (Finite False 5404319552844596 (- 55))"
  by (simp add: fdiv_def rr_eval_27)

lemma format_eval_25:
  "format_5f (Finite False 5404319552844596 (- 55)) = ''0.15000''"
proof -
  have rh: "round_half_even 540431955284459600000 36028797018963968 = 15000"
    by (simp add: round_half_even_def Let_def)
  show ?thesis
    by (simp add: format_5f_def rh zero_pad_def digit_char_def)
qed











lemma rr_eval_30: "round_ratio False 13510798882111488 4503599627370496 = Finite False 6755399441055744 (- 51)"
proof -
  have fl: "floor_log2 13510798882111488 4503599627370496 = 1"
    by (simp add: floor_log2_def Let_def)
  have rh: "round_half_even 30423614405477505635920876929024 4503599627370496 = 6755399441055744"
    by (simp add: round_half_even_def Let_def)
  show ?thesis
    by (simp add: round_ratio_def fl rh)
qed

lemma fadd_eval_27:
  "fadd (Finite False 4503599627370496 (- 51)) (Finite False 4503599627370496 (- 52)) = Finite False 6755399441055744 (- 51)"
  by (simp add: fadd.simps signed_def rr_eval_30)








lemma rr_eval_33: "round_ratio False 7125 10000 = Finite False 6417629469002957 (- 53)"
proof -
  have fl: "floor_log2 7125 10000 = - 1"
    by (simp add: floor_log2_def Let_def)
  have rh: "round_half_even 64176294690029568000 10000 = 6417629469002957"
    by (simp add: round_half_even_def Let_def)
  show ?thesis
    by (simp add: round_ratio_def fl rh)
qed

lemma parse_0_7125: "float_of_string ''0.7125'' = Some (Finite False 6417629469002957 (- 53))"
  by (simp add: float_of_string_def split_sign_def num_strip_def is_num_space_def ascii_lower_def
      is_exp_char_def digits_of_def digits_value_def digit_val_def is_digit_def signed_def rr_eval_33)

lemma rr_eval_34: "round_ratio False 28902433685203631254844758556672 40564819207303340847894502572032 = Finite False 6417629469002957 (- 53)"
proof -
  have fl: "floor_log2 28902433685203631254844758556672 40564819207303340847894502572032 = - 1"
    by (simp add: floor_log2_def Let_def)
  have rh: "round_half_even 260329979149567090417995202288256082455113498624 40564819207303340847894502572032 = 6417629469002957"
    by (simp add: round_half_even_def Let_def)
  show ?thesis
    by (simp add: round_ratio_def fl rh)
qed

lemma fmul_eval_31:
  "fmul (Finite False 4503599627370496 (- 52)) (Finite False 6417629469002957 (- 53)) = Finite False 6417629469002957 (- 53)"
  by (simp add: fmul.simps rr_eval_34)

lemma row8_weight_value:
  "weight_value [''Influence'' \<mapsto> Str ''1'', ''Approve'' \<mapsto> Str ''0.7125'']
     = Some (Finite False 4503599627370496 (- 52), Finite False 6417629469002957 (- 53))"
  by (simp add: weight_value_def get_default_def py_float_def parse_1 parse_0_7125)

lemma row8_qualifies:
  "qualifies [''Influence'' \<mapsto> Str ''1'', ''Approve'' \<mapsto> Str ''0.7125'']"
  by (simp add: qualifies_def row8_weight_value included_def isfinite_def gt_zero_def)

lemma row8_weight_of:
  "weight_of [''Influence'' \<mapsto> Str ''1'', ''Approve'' \<mapsto> Str ''0.7125'']
     = Finite False 4503599627370496 (- 52)"
  by (simp add: weight_of_def row8_weight_value)

lemma row8_weighted_value_of:
  "weighted_value_of [''Influence'' \<mapsto> Str ''1'', ''Approve'' \<mapsto> Str ''0.7125'']
     = Finite False 6417629469002957 (- 53)"
  by (simp add: weighted_value_of_def row8_weight_value fmul_eval_31)










lemma ordB_running_1:
  "running_weight
     [[''Influence'' \<mapsto> Str ''1'', ''Approve'' \<mapsto> Str ''0.1'']] = Finite False 4503599627370496 (- 52)"
  "running_weighted_value
     [[''Influence'' \<mapsto> Str ''1'', ''Approve'' \<mapsto> Str ''0.1'']] = Finite False 7205759403792794 (- 56)"
  by (simp_all add: running_weight_def running_weighted_value_def float_zero_def
      row5_qualifies row5_weight_of row5_weighted_value_of fadd_eval_17 fadd_eval_18)

lemma ordB_rolling_1:
  "rolling_value
     [[''Influence'' \<mapsto> Str ''1'', ''Approve'' \<mapsto> Str ''0.1'']] = ''0.10000''"
  by (simp add: rolling_value_def ordB_running_1 is_zero_def fdiv_eval_19 format_eval_20)

lemma ordB_running_2:
  "running_weight
     [[''Influence'' \<mapsto> Str ''1'', ''Approve'' \<mapsto> Str ''0.1''],
      [''Influence'' \<mapsto> Str ''1'', ''Approve'' \<mapsto> Str ''0.2'']] = Finite False 4503599627370496 (- 51)"
  "running_weighted_value
     [[''Influence'' \<mapsto> Str ''1'', ''Approve'' \<mapsto> Str ''0.1''],
      [''Influence'' \<mapsto> Str ''1'', ''Approve'' \<mapsto> Str ''0.2'']] = Finite False 5404319552844596 (- 54)"
  by (simp_all add: running_weight_def running_weighted_value_def float_zero_def
      row5_qualifies row5_weight_of row5_weighted_value_of fadd_eval_17 fadd_eval_18 row6_qualifies row6_weight_of row6_weighted_value_of fadd_eval_22 fadd_eval_23)

lemma ordB_rolling_2:
  "rolling_value
     [[''Influence'' \<mapsto> Str ''1'', ''Approve'' \<mapsto> Str ''0.1''],
      [''Influence'' \<mapsto> Str ''1'', ''Approve'' \<mapsto> Str ''0.2'']] = ''0.15000''"
  by (simp add: rolling_value_def ordB_running_2 is_zero_def fdiv_eval_24 format_eval_25)

lemma rr_eval_38: "round_ratio False 18239578490850510 18014398509481984 = Finite False 4559894622712628 (- 52)"
proof -
  have fl: "floor_log2 18239578490850510 18014398509481984 = 0"
    by (simp add: floor_log2_def Let_def)
  have rh: "round_half_even 82143758894789270621305920552960 18014398509481984 = 4559894622712628"
    by (simp add: round_half_even_def Let_def)
  show ?thesis
    by (simp add: round_ratio_def fl rh)
qed

lemma fadd_eval_36:
  "fadd (Finite False 5404319552844596 (- 54)) (Finite False 6417629469002957 (- 53)) = Finite False 4559894622712628 (- 52)"
  by (simp add: fadd.simps signed_def rr_eval_38)

lemma rr_eval_39: "round_ratio False 4559894622712628 13510798882111488 = Finite False 6079859496950171 (- 54)"
proof -
  have fl: "floor_log2 4559894622712628 13510798882111488 = - 2"
    by (simp add: floor_log2_def Let_def)
  have rh: "round_half_even 82143758894789279628505175293952 13510798882111488 = 6079859496950171"
    by (simp add: round_half_even_def Let_def)
  show ?thesis
    by (simp add: round_ratio_def fl rh)
qed

lemma fdiv_eval_37:
  "fdiv (Finite False 4559894622712628 (- 52)) (Finite False 6755399441055744 (- 51)) = Inr (Finite False 6079859496950171 (- 54))"
  by (simp add: fdiv_def rr_eval_39)

lemma format_eval_38:
  "format_5f (Finite False 6079859496950171 (- 54)) = ''0.33750''"
proof -
  have rh: "round_half_even 607985949695017100000 18014398509481984 = 33750"
    by (simp add: round_half_even_def Let_def)
  show ?thesis
    by (simp add: format_5f_def rh zero_pad_def digit_char_def)
qed

lemma ordB_running_3:
  "running_weight
     [[''Influence'' \<mapsto> Str ''1'', ''Approve'' \<mapsto> Str ''0.1''],
      [''Influence'' \<mapsto> Str ''1'', ''Approve'' \<mapsto> Str ''0.2''],
      [''Influence'' \<mapsto> Str ''1'', ''Approve'' \<mapsto> Str ''0.7125'']] = Finite False 6755399441055744 (- 51)"
  "running_weighted_value
     [[''Influence'' \<mapsto> Str ''1'', ''Approve'' \<mapsto> Str ''0.1''],
      [''Influence'' \<mapsto> Str ''1'', ''Approve'' \<mapsto> Str ''0.2''],
      [''Influence'' \<mapsto> Str ''1'', ''Approve'' \<mapsto> Str ''0.7125'']] = Finite False 4559894622712628 (- 52)"
  by (simp_all add: running_weight_def running_weighted_value_def float_zero_def
      row5_qualifies row5_weight_of row5_weighted_value_of fadd_eval_17 fadd_eval_18 row6_qualifies row6_weight_of row6_weighted_value_of fadd_eval_22 fadd_eval_23 row8_qualifies row8_weight_of row8_weighted_value_of fadd_eval_27 fadd_eval_36)

lemma ordB_rolling_3:
  "rolling_value
     [[''Influence'' \<mapsto> Str ''1'', ''Approve'' \<mapsto> Str ''0.1''],
      [''Influence'' \<mapsto> Str ''1'', ''Approve'' \<mapsto> Str ''0.2''],
      [''Influence'' \<mapsto> Str ''1'', ''Approve'' \<mapsto> Str ''0.7125'']] = ''0.33750''"
  by (simp add: rolling_value_def ordB_running_3 is_zero_def fdiv_eval_37 format_eval_38)









section \<open>Properties of the aggregator\<close>


lemma input_order_no_dates:
  "(\<And>r. r \<in> set rows \<Longrightarrow> ''Dates'' \<notin> dom r) \<Longrightarrow> input_order pf header rows = rows"
  unfolding input_order_def by (rule sort_reverse_const [where c = date_min]) (simp add: row_key_no_dates)













theorem main_row_count_witness:
  "\<exists>res. main (Platform False 4300) [''Influence'', ''Approve'']
      [[''Influence'' \<mapsto> Str ''2'', ''Approve'' \<mapsto> Str ''50''],
      [''Influence'' \<mapsto> Str ''3'', ''Approve'' \<mapsto> Str ''60''],
      [''Influence'' \<mapsto> Str ''n/a'', ''Approve'' \<mapsto> Str ''55''],
      [''Influence'' \<mapsto> Str ''1'', ''Approve'' \<mapsto> Str ''40'']] = Inr res
    \<and> length (out_rows res) = 4
    \<and> length (out_records res) = 4"
proof -
  from main_row_count [of "Platform False 4300" "[''Influence'', ''Approve'']"
      "[[''Influence'' \<mapsto> Str ''2'', ''Approve'' \<mapsto> Str ''50''],
      [''Influence'' \<mapsto> Str ''3'', ''Approve'' \<mapsto> Str ''60''],
      [''Influence'' \<mapsto> Str ''n/a'', ''Approve'' \<mapsto> Str ''55''],
      [''Influence'' \<mapsto> Str ''1'', ''Approve'' \<mapsto> Str ''40'']]"]
  obtain res where
    "main (Platform False 4300) [''Influence'', ''Approve'']
      [[''Influence'' \<mapsto> Str ''2'', ''Approve'' \<mapsto> Str ''50''],
      [''Influence'' \<mapsto> Str ''3'', ''Approve'' \<mapsto> Str ''60''],
      [''Influence'' \<mapsto> Str ''n/a'', ''Approve'' \<mapsto> Str ''55''],
      [''Influence'' \<mapsto> Str ''1'', ''Approve'' \<mapsto> Str ''40'']] = Inr res"
    "length (out_rows res) = length [[''Influence'' \<mapsto> Str ''2'', ''Approve'' \<mapsto> Str ''50''],
      [''Influence'' \<mapsto> Str ''3'', ''Approve'' \<mapsto> Str ''60''],
      [''Influence'' \<mapsto> Str ''n/a'', ''Approve'' \<mapsto> Str ''55''],
      [''Influence'' \<mapsto> Str ''1'', ''Approve'' \<mapsto> Str ''40'']]"
    "length (out_records res) = length [[''Influence'' \<mapsto> Str ''2'', ''Approve'' \<mapsto> Str ''50''],
      [''Influence'' \<mapsto> Str ''3'', ''Approve'' \<mapsto> Str ''60''],
      [''Influence'' \<mapsto> Str ''n/a'', ''Approve'' \<mapsto> Str ''55''],
      [''Influence'' \<mapsto> Str ''1'', ''Approve'' \<mapsto> Str ''40'']]"
    by (elim exE conjE)
  then show ?thesis by simp
qed

theorem last_rolling_is_global_witness:
  "(\<exists>r \<in> set [[''Influence'' \<mapsto> Str ''2'', ''Approve'' \<mapsto> Str ''50''],
      [''Influence'' \<mapsto> Str ''3'', ''Approve'' \<mapsto> Str ''60''],
      [''Influence'' \<mapsto> Str ''n/a'', ''Approve'' \<mapsto> Str ''55''],
      [''Influence'' \<mapsto> Str ''1'', ''Approve'' \<mapsto> Str ''40'']]. qualifies r)
   \<and> (\<exists>res. main (Platform False 4300) [''Influence'', ''Approve'']
          [[''Influence'' \<mapsto> Str ''2'', ''Approve'' \<mapsto> Str ''50''],
      [''Influence'' \<mapsto> Str ''3'', ''Approve'' \<mapsto> Str ''60''],
      [''Influence'' \<mapsto> Str ''n/a'', ''Approve'' \<mapsto> Str ''55''],
      [''Influence'' \<mapsto> Str ''1'', ''Approve'' \<mapsto> Str ''40'']] = Inr res
        \<and> out_line res = ''Weighted Approve (by Influence): 53.33333''
        \<and> get (last (out_records res)) ''RollingWeightedApprove'' = Str ''53.33333'')"
proof -
  let ?pf = "Platform False 4300"
  let ?rows = "[[''Influence'' \<mapsto> Str ''2'', ''Approve'' \<mapsto> Str ''50''],
      [''Influence'' \<mapsto> Str ''3'', ''Approve'' \<mapsto> Str ''60''],
      [''Influence'' \<mapsto> Str ''n/a'', ''Approve'' \<mapsto> Str ''55''],
      [''Influence'' \<mapsto> Str ''1'', ''Approve'' \<mapsto> Str ''40'']]"
  have q: "\<exists>r \<in> set ?rows. qualifies r" using row1_qualifies by simp
  have io: "input_order ?pf [''Influence'', ''Approve''] ?rows = ?rows" by (rule input_order_no_dates) auto
  from last_rolling_is_global [OF q, of ?pf "[''Influence'', ''Approve'']"] obtain res wa where
    a: "main ?pf [''Influence'', ''Approve''] ?rows = Inr res"
       "fdiv (running_weighted_value ?rows) (running_weight ?rows) = Inr wa"
       "out_line res = ''Weighted Approve (by Influence): '' @ format_5f wa"
       "get (last (out_records res)) ''RollingWeightedApprove'' = Str (format_5f wa)"
    unfolding io by (elim exE conjE)
  from a(2) have "format_5f wa = ''53.33333''"
    using ex_rolling_4 by (simp add: rolling_value_def ex_running_4 is_zero_def)
  with a have "\<exists>res. main ?pf [''Influence'', ''Approve''] ?rows = Inr res
        \<and> out_line res = ''Weighted Approve (by Influence): 53.33333''
        \<and> get (last (out_records res)) ''RollingWeightedApprove'' = Str ''53.33333''"
    by simp
  with q show ?thesis by (intro conjI)
qed

section \<open>Properties of the sort stage\<close>

lemma sorted_sort_reverse: "sorted (rev (map k (sort_reverse k xs)))"
  by (simp add: sort_reverse_def rev_map [symmetric])

lemma sort_reverse_stable:
  "filter (\<lambda>y. k y = c) (sort_reverse k xs) = filter (\<lambda>y. k y = c) xs"
  by (simp add: sort_reverse_def rev_filter [symmetric] sort_key_stable)

lemma row_key_annotate [simp]:
  "row_key pf (r(''RollingWeightedApprove'' \<mapsto> c)) = row_key pf r"
  by (simp add: row_key_def get_def)

text \<open>
  What holds of the sort stage: along the output the parsed dates never increase, and rows
  with equal parsed dates keep their input order.
\<close>

lemma adjacent_output_rows_descend:
  assumes "main pf header rows = Inr res" "Suc i < length rows"
  shows "row_key pf (out_records res ! Suc i) \<le> row_key pf (out_records res ! i)"
proof -
  let ?srt = "enriched pf header rows"
  from assms(1) have recs: "out_records res = annotate_from [] ?srt"
    by (auto simp: main_structure Let_def)
  have l: "Suc i < length ?srt" "i < length ?srt" using assms(2) by simp_all
  have k: "row_key pf (out_records res ! Suc i) = row_key pf (?srt ! Suc i)"
          "row_key pf (out_records res ! i) = row_key pf (?srt ! i)"
    unfolding recs by (simp_all add: nth_annotate_from [OF l(1)] nth_annotate_from [OF l(2)])
  have "sorted (rev (map (row_key pf) ?srt))"
    unfolding enriched_def by (rule sorted_sort_reverse)
  from sorted_rev_nth_mono [OF this, of i "Suc i"] l
  have "map (row_key pf) ?srt ! Suc i \<le> map (row_key pf) ?srt ! i" by simp
  with l k show ?thesis by simp
qed

lemma equal_keys_keep_input_order:
  "filter (\<lambda>r. row_key pf r = c) (enriched pf header rows)
     = filter (\<lambda>r. row_key pf r = c) (map (process_row pf (compute_fieldnames header)) rows)"
  unfolding enriched_def by (rule sort_reverse_stable)

lemma dates_eval:
  "extract_date (Platform False 4300) (Str ''foo'') = Str ''foo''"
  "extract_date (Platform False 4300) (Str ''0001-01-01'') = Str ''0001-01-01''"
  by (simp_all add: extract_date_def date_from_id_def date_from_range_def date_from_single_def
      match_range_def match_single_def digits_1_2_def digits_4_def take_digits_def lit_def
      is_digit_def skip_spaces_def is_space_def Let_def)

lemma parse_eval:
  "parse_date (Platform False 4300) (Str ''foo'') = None"
  "parse_date (Platform False 4300) (Str ''0001-01-01'') = Some (1, 1, 1)"
  by (simp_all add: parse_date_def py_str_def py_int_def split_sign_def num_strip_def
      is_num_space_def is_digit_def digits_of_def int_of_digits_def digits_value_def
      digit_val_def mk_date_def days_in_month_def)

text \<open>
  Claim C4 asks that rows with unparseable dates come strictly after all rows with
  parseable dates, as the comment at the sort says (unknown dates go last). The sentinel
  \<open>date.min\<close> is itself the parseable date 0001-01-01: here the first input row has an
  unparseable date, the second the date 0001-01-01, both get the same key, and the stable
  sort leaves the unparseable row in front.
\<close>

theorem unparseable_row_before_parseable:
  "parse_date (Platform False 4300) (Str ''foo'') = None
   \<and> parse_date (Platform False 4300) (Str ''0001-01-01'') = Some (1, 1, 1)
   \<and> (\<exists>res. main (Platform False 4300) [''Dates'']
          [[''Dates'' \<mapsto> Str ''foo''], [''Dates'' \<mapsto> Str ''0001-01-01'']] = Inr res
        \<and> map (\<lambda>r. get r ''Dates'') (out_records res) = [Str ''foo'', Str ''0001-01-01'']
        \<and> map hd (out_rows res) = [''foo'', ''0001-01-01''])"
proof -
  let ?pf = "Platform False 4300"
  let ?rows = "[[''Dates'' \<mapsto> Str ''foo''], [''Dates'' \<mapsto> Str ''0001-01-01'']]"
  have fn: "compute_fieldnames [''Dates''] = [''Dates'', ''Sponsor'', ''RollingWeightedApprove'']"
    by (simp add: compute_fieldnames_def remove_col_def insert_after_def)
  have keys: "\<And>r. r \<in> set ?rows \<Longrightarrow>
      row_key ?pf (process_row ?pf (compute_fieldnames [''Dates'']) r) = date_min"
    by (auto simp: row_key_def get_def process_row_lookup dates_eval to_date_or_min_def
        parse_eval date_min_def)
  have io: "input_order ?pf [''Dates''] ?rows = ?rows"
    unfolding input_order_def by (rule sort_reverse_const [where c = date_min]) (rule keys)
  have "\<exists>res. main ?pf [''Dates''] ?rows = Inr res
        \<and> map (\<lambda>r. get r ''Dates'') (out_records res) = [Str ''foo'', Str ''0001-01-01'']
        \<and> map hd (out_rows res) = [''foo'', ''0001-01-01'']"
    unfolding main_structure Let_def
    by (rule exI, rule conjI, rule refl)
      (simp add: enriched_input_order io fn write_row_def get_def get_default_def
        process_row_lookup dates_eval)
  with parse_eval show ?thesis by simp
qed

section \<open>Properties of the schema rewriter\<close>

lemma set_list_insert: "set (list_insert i x xs) = insert x (set xs)"
proof -
  have "set (take i xs) \<union> set (drop i xs) = set xs"
    by (metis append_take_drop_id set_append)
  then show ?thesis by (auto simp: list_insert_def)
qed

lemma distinct_list_insert:
  "distinct xs \<Longrightarrow> x \<notin> set xs \<Longrightarrow> distinct (list_insert i x xs)"
proof -
  assume d: "distinct xs" and n: "x \<notin> set xs"
  have "distinct (take i xs @ drop i xs)" using d by simp
  then have a: "distinct (take i xs)" "distinct (drop i xs)"
      "set (take i xs) \<inter> set (drop i xs) = {}"
    unfolding distinct_append by blast+
  have b: "x \<notin> set (take i xs)" "x \<notin> set (drop i xs)"
    using n by (auto dest: in_set_takeD in_set_dropD)
  show ?thesis unfolding list_insert_def using a b by simp
qed

lemma distinct_remove_col: "distinct xs \<Longrightarrow> distinct (remove_col c xs)"
  by (simp add: remove_col_def)

lemma distinct_insert_after: "distinct xs \<Longrightarrow> distinct (insert_after a n xs)"
  by (simp add: insert_after_def distinct_list_insert)

lemma remove_col_filter:
  "count_list xs c \<le> 1 \<Longrightarrow> remove_col c xs = filter (\<lambda>x. x \<noteq> c) xs"
proof (induction xs)
  case Nil
  then show ?case by (simp add: remove_col_def)
next
  case (Cons y ys)
  show ?case
  proof (cases "y = c")
    case True
    with Cons.prems have "count_list ys c = 0" by simp
    then have "c \<notin> set ys" by (simp add: count_list_0_iff)
    then have "filter (\<lambda>x. x \<noteq> c) ys = ys" by (induction ys) auto
    with True show ?thesis by (simp add: remove_col_def)
  next
    case False
    with Cons.prems have "count_list ys c \<le> 1" by simp
    from Cons.IH [OF this] False show ?thesis
      by (auto simp: remove_col_def split: if_splits)
  qed
qed

lemma list_insert_place_after:
  "a \<in> set xs \<Longrightarrow> list_insert (Suc (index_of xs a)) n xs = place_after a n xs"
  by (induction xs) (auto simp: list_insert_def)

lemma set_place_after: "a \<in> set xs \<Longrightarrow> set (place_after a n xs) = insert n (set xs)"
  by (induction xs) auto

lemma set_insert_after: "set (insert_after a n xs) = insert n (set xs)"
  by (auto simp: insert_after_def set_list_insert)

lemma insert_after_spec:
  "insert_after a n xs = (if n \<in> set xs then xs else spec_add_column a n xs)"
  by (simp add: insert_after_def spec_add_column_def list_insert_place_after)

lemma count_filter_other:
  "c \<noteq> d \<Longrightarrow> count_list (filter (\<lambda>x. x \<noteq> d) xs) c = count_list xs c"
  by (induction xs) auto

lemma adjacent_place_after: "a \<in> set xs \<Longrightarrow> adjacent a n (place_after a n xs)"
proof (induction xs)
  case Nil
  then show ?case by simp
next
  case (Cons x xs)
  show ?case
  proof (cases "x = a")
    case True
    then show ?thesis by simp
  next
    case False
    with Cons have ih: "adjacent a n (place_after a n xs)" by simp
    then obtain y ys where "place_after a n xs = y # ys" by (cases "place_after a n xs") auto
    with ih False show ?thesis by simp
  qed
qed

lemma adjacent_Cons: "adjacent a b xs \<Longrightarrow> adjacent a b (x # xs)"
  by (cases xs) auto

lemma adjacent_append: "adjacent a b xs \<Longrightarrow> adjacent a b (xs @ ys)"
proof (induction a b xs rule: adjacent.induct)
  case (1 a b x y zs)
  then show ?case by auto
qed simp_all

lemma adjacent_place_other:
  "adjacent a b xs \<Longrightarrow> c \<noteq> a \<Longrightarrow> adjacent a b (place_after c n xs)"
proof (induction a b xs rule: adjacent.induct)
  case (1 a b x y zs)
  show ?case
  proof (cases "x = a \<and> y = b")
    case True
    with "1.prems" show ?thesis by simp
  next
    case False
    with "1.prems" have adj: "adjacent a b (y # zs)" by simp
    with "1.IH" "1.prems" have ih: "adjacent a b (place_after c n (y # zs))" by simp
    show ?thesis
    proof (cases "x = c")
      case True
      with adj show ?thesis by (simp add: adjacent_Cons)
    next
      case False
      with ih show ?thesis by (simp add: adjacent_Cons)
    qed
  qed
qed simp_all

lemma adjacent_insert_after_other:
  "adjacent a b xs \<Longrightarrow> c \<noteq> a \<Longrightarrow> adjacent a b (insert_after c n xs)"
  by (simp add: insert_after_spec spec_add_column_def adjacent_place_other adjacent_append)

lemma adjacent_insert_after:
  "a \<in> set xs \<Longrightarrow> n \<notin> set xs \<Longrightarrow> adjacent a n (insert_after a n xs)"
  by (simp add: insert_after_spec spec_add_column_def adjacent_place_after)

lemma compute_fieldnames_store_eq:
  assumes "orig < length h"
  shows "compute_fieldnames_store h orig = (h @ [compute_fieldnames (h ! orig)], length h)"
  using assms
  by (simp add: compute_fieldnames_store_def alloc_def mutate_def compute_fieldnames_def
      Let_def nth_append)

text \<open>
  Claim C5 fails as stated. On the header \<open>Sponsor, Pollster\<close>, whose names are pairwise
  distinct, the code inserts nothing because \<open>Sponsor\<close> is already a column (the guard
  \<open>"Sponsor" not in fields\<close>), so \<open>Sponsor\<close> does not stand immediately after
  \<open>Pollster\<close> and the result differs from the schema the specification describes. On a
  header that repeats a dropped name, \<open>list.remove\<close> deletes one occurrence only and
  \<open>Net\<close> stays in the output.
\<close>

theorem compute_fieldnames_guard_counterexample:
  "distinct [''Sponsor'', ''Pollster'']
   \<and> compute_fieldnames [''Sponsor'', ''Pollster'']
       = [''Sponsor'', ''Pollster'', ''RollingWeightedApprove'']
   \<and> \<not> adjacent ''Pollster'' ''Sponsor'' (compute_fieldnames [''Sponsor'', ''Pollster''])
   \<and> compute_fieldnames [''Sponsor'', ''Pollster''] \<noteq> spec_schema [''Sponsor'', ''Pollster'']
   \<and> ''Net'' \<in> set (compute_fieldnames [''Net'', ''Net''])"
  by (simp add: compute_fieldnames_def remove_col_def insert_after_def spec_schema_def
      spec_add_column_def list_insert_def)

text \<open>
  Claim C5, amended: for every input column list in which \<open>Disapprove\<close> and \<open>Net\<close> each
  occur at most once (every list of pairwise distinct names is one), the computed output
  schema equals the input schema minus \<open>Disapprove\<close> and \<open>Net\<close>, with \<open>Sponsor\<close>,
  unless it is already a column, inserted immediately after \<open>Pollster\<close> (or appended if
  \<open>Pollster\<close> is absent), and \<open>RollingWeightedApprove\<close>, unless it is already a column,
  inserted immediately after \<open>Approve\<close> (or appended if \<open>Approve\<close> is absent); a new
  column that is already present stays where it is. When neither new column is present
  beforehand this is the schema of the specification. The output never contains
  \<open>Disapprove\<close> or \<open>Net\<close>. The computation is deterministic and pure: run on a store
  of list objects, it returns a newly allocated list whose value depends on the value of
  the input list only, and leaves every existing object, the input list included, as it
  was.
\<close>

theorem compute_fieldnames_schema:
  assumes "count_list orig_fields ''Disapprove'' \<le> 1"
    and "count_list orig_fields ''Net'' \<le> 1"
  shows "compute_fieldnames orig_fields =
           (if ''RollingWeightedApprove'' \<in> set orig_fields then id
            else spec_add_column ''Approve'' ''RollingWeightedApprove'')
             ((if ''Sponsor'' \<in> set orig_fields then id
               else spec_add_column ''Pollster'' ''Sponsor'')
                (filter (\<lambda>c. c \<noteq> ''Disapprove'' \<and> c \<noteq> ''Net'') orig_fields))
       \<and> (''Sponsor'' \<notin> set orig_fields \<and> ''RollingWeightedApprove'' \<notin> set orig_fields
            \<longrightarrow> compute_fieldnames orig_fields = spec_schema orig_fields)
       \<and> ''Disapprove'' \<notin> set (compute_fieldnames orig_fields)
       \<and> ''Net'' \<notin> set (compute_fieldnames orig_fields)
       \<and> (''Pollster'' \<in> set orig_fields \<and> ''Sponsor'' \<notin> set orig_fields
            \<longrightarrow> adjacent ''Pollster'' ''Sponsor'' (compute_fieldnames orig_fields))
       \<and> (''Approve'' \<in> set orig_fields \<and> ''RollingWeightedApprove'' \<notin> set orig_fields
            \<longrightarrow> adjacent ''Approve'' ''RollingWeightedApprove'' (compute_fieldnames orig_fields))
       \<and> (\<forall>h a. a < length h \<and> h ! a = orig_fields
            \<longrightarrow> compute_fieldnames_store h a = (h @ [compute_fieldnames orig_fields], length h))"
proof -
  let ?f1 = "filter (\<lambda>x. x \<noteq> ''Disapprove'') orig_fields"
  let ?base = "filter (\<lambda>c. c \<noteq> ''Disapprove'' \<and> c \<noteq> ''Net'') orig_fields"
  let ?s = "insert_after ''Pollster'' ''Sponsor'' ?base"
  have r1: "remove_col ''Disapprove'' orig_fields = ?f1"
    using assms(1) by (rule remove_col_filter)
  have "count_list ?f1 ''Net'' \<le> 1"
    using assms(2) by (simp add: count_filter_other)
  then have r2: "remove_col ''Net'' ?f1 = filter (\<lambda>x. x \<noteq> ''Net'') ?f1"
    by (rule remove_col_filter)
  have f: "filter (\<lambda>x. x \<noteq> ''Net'') ?f1 = ?base"
    by (simp add: conj_commute)
  have out: "compute_fieldnames orig_fields
      = insert_after ''Approve'' ''RollingWeightedApprove'' ?s"
    by (simp only: compute_fieldnames_def Let_def r1 r2 f)
  have sb: "''Sponsor'' \<in> set ?base \<longleftrightarrow> ''Sponsor'' \<in> set orig_fields" by simp
  have rs: "''RollingWeightedApprove'' \<in> set ?s
      \<longleftrightarrow> ''RollingWeightedApprove'' \<in> set orig_fields"
    by (simp add: set_insert_after)
  have pb: "''Pollster'' \<in> set ?base \<longleftrightarrow> ''Pollster'' \<in> set orig_fields" by simp
  have ab: "''Approve'' \<in> set ?s \<longleftrightarrow> ''Approve'' \<in> set orig_fields"
    by (simp add: set_insert_after)
  have s_eq: "?s = (if ''Sponsor'' \<in> set orig_fields then id
                     else spec_add_column ''Pollster'' ''Sponsor'') ?base"
    by (simp only: insert_after_spec [of "''Pollster''"] sb id_apply if_distrib [of "\<lambda>f. f ?base"])
  have c1: "compute_fieldnames orig_fields =
           (if ''RollingWeightedApprove'' \<in> set orig_fields then id
            else spec_add_column ''Approve'' ''RollingWeightedApprove'')
             ((if ''Sponsor'' \<in> set orig_fields then id
               else spec_add_column ''Pollster'' ''Sponsor'') ?base)"
    unfolding out insert_after_spec [of "''Approve''"] rs
    by (simp only: s_eq [symmetric] id_apply if_distrib [of "\<lambda>f. f ?s"])
  have c2: "''Sponsor'' \<notin> set orig_fields \<and> ''RollingWeightedApprove'' \<notin> set orig_fields
            \<longrightarrow> compute_fieldnames orig_fields = spec_schema orig_fields"
    using c1 by (simp add: spec_schema_def)
  have c3: "''Disapprove'' \<notin> set (compute_fieldnames orig_fields)"
    and c4: "''Net'' \<notin> set (compute_fieldnames orig_fields)"
    by (simp_all add: out set_insert_after)
  have c5: "''Pollster'' \<in> set orig_fields \<and> ''Sponsor'' \<notin> set orig_fields
            \<longrightarrow> adjacent ''Pollster'' ''Sponsor'' (compute_fieldnames orig_fields)"
  proof
    assume a: "''Pollster'' \<in> set orig_fields \<and> ''Sponsor'' \<notin> set orig_fields"
    then have "adjacent ''Pollster'' ''Sponsor'' ?s"
      by (intro adjacent_insert_after) simp_all
    then show "adjacent ''Pollster'' ''Sponsor'' (compute_fieldnames orig_fields)"
      unfolding out by (rule adjacent_insert_after_other) simp
  qed
  have c6: "''Approve'' \<in> set orig_fields \<and> ''RollingWeightedApprove'' \<notin> set orig_fields
            \<longrightarrow> adjacent ''Approve'' ''RollingWeightedApprove'' (compute_fieldnames orig_fields)"
    unfolding out using ab rs by (auto intro: adjacent_insert_after)
  have c7: "\<forall>h a. a < length h \<and> h ! a = orig_fields
            \<longrightarrow> compute_fieldnames_store h a = (h @ [compute_fieldnames orig_fields], length h)"
    by (auto simp: compute_fieldnames_store_eq)
  from c1 c2 c3 c4 c5 c6 c7 show ?thesis by blast
qed

theorem compute_fieldnames_schema_witness:
  "count_list [''Pollster'', ''Dates'', ''Approve'', ''Disapprove'', ''Net''] ''Disapprove'' \<le> 1
   \<and> count_list [''Pollster'', ''Dates'', ''Approve'', ''Disapprove'', ''Net''] ''Net'' \<le> 1
   \<and> compute_fieldnames [''Pollster'', ''Dates'', ''Approve'', ''Disapprove'', ''Net'']
       = [''Pollster'', ''Sponsor'', ''Dates'', ''Approve'', ''RollingWeightedApprove'']
   \<and> spec_schema [''Pollster'', ''Dates'', ''Approve'', ''Disapprove'', ''Net'']
       = [''Pollster'', ''Sponsor'', ''Dates'', ''Approve'', ''RollingWeightedApprove'']
   \<and> adjacent ''Pollster'' ''Sponsor''
        (compute_fieldnames [''Pollster'', ''Dates'', ''Approve'', ''Disapprove'', ''Net''])
   \<and> compute_fieldnames_store [[''Pollster'', ''Dates'', ''Approve'', ''Disapprove'', ''Net'']] 0
       = ([[''Pollster'', ''Dates'', ''Approve'', ''Disapprove'', ''Net''],
           [''Pollster'', ''Sponsor'', ''Dates'', ''Approve'', ''RollingWeightedApprove'']], 1)"
proof -
  let ?cols = "[''Pollster'', ''Dates'', ''Approve'', ''Disapprove'', ''Net'']"
  have h: "count_list ?cols ''Disapprove'' \<le> 1" "count_list ?cols ''Net'' \<le> 1" by simp_all
  have sp: "spec_schema ?cols
      = [''Pollster'', ''Sponsor'', ''Dates'', ''Approve'', ''RollingWeightedApprove'']"
    by (simp add: spec_schema_def spec_add_column_def)
  note t = compute_fieldnames_schema [OF h]
  have eq: "compute_fieldnames ?cols = spec_schema ?cols"
    using t [THEN conjunct2, THEN conjunct1] by simp
  have adj: "adjacent ''Pollster'' ''Sponsor'' (compute_fieldnames ?cols)"
    using t [THEN conjunct2, THEN conjunct2, THEN conjunct2, THEN conjunct2, THEN conjunct1]
    by simp
  have "\<forall>h a. a < length h \<and> h ! a = ?cols
      \<longrightarrow> compute_fieldnames_store h a = (h @ [compute_fieldnames ?cols], length h)"
    using t by blast
  then have st: "compute_fieldnames_store [?cols] 0
      = ([?cols] @ [compute_fieldnames ?cols], length [?cols])"
    by (rule allE [where x = "[?cols]"]) simp
  from h sp eq adj st show ?thesis by (simp del: count_list.simps)
qed

text \<open>
  Claim C10: if the input column names are pairwise distinct, so are the output
  schema's: the two removals keep distinctness, and each new name is inserted only when
  it is not yet in the list.
\<close>

theorem compute_fieldnames_distinct:
  "distinct orig_fields \<Longrightarrow> distinct (compute_fieldnames orig_fields)"
  by (simp add: compute_fieldnames_def Let_def distinct_remove_col distinct_insert_after)

theorem compute_fieldnames_distinct_witness:
  "distinct [''Pollster'', ''Dates'', ''Approve'', ''Disapprove'', ''Net'', ''Influence''] \<and>
   distinct (compute_fieldnames
     [''Pollster'', ''Dates'', ''Approve'', ''Disapprove'', ''Net'', ''Influence''])"
  using compute_fieldnames_distinct
    [of "[''Pollster'', ''Dates'', ''Approve'', ''Disapprove'', ''Net'', ''Influence'']"]
  by simp

end
